theory Spec2Isabelle
  imports Complex_Main
begin

section \<open>JavaScript strings\<close>

text \<open>
  A JavaScript string is a sequence of UTF-16 code units; \<open>length\<close>, indexing, \<open>includes\<close>
  and the regular expressions of this program (none carries the \<open>u\<close> flag) all work on
  code units. A string is therefore a list of code units, each a natural number below
  65536. ASCII literals are written as Isabelle strings and converted by \<open>ascii\<close>; other
  literals are written as lists of hexadecimal code units.
\<close>

type_synonym jsstring = "nat list"

definition ascii :: "string \<Rightarrow> jsstring" where
  "ascii s = map of_char s"

text \<open>\<open>String(n)\<close> for a non-negative integer: its decimal digits.\<close>

fun decimal :: "nat \<Rightarrow> jsstring" where
  "decimal n = (if n < 10 then [48 + n] else decimal (n div 10) @ [48 + n mod 10])"

declare decimal.simps [simp del]

section \<open>The sequential orchestrator\<close>

subsection \<open>Data\<close>

datatype StepStatus = Pending | Processing | Completed | Error

text \<open>
  \<open>ThinkingStep\<close>: the optional fields \<open>result\<close> and \<open>error\<close> are \<open>None\<close> when the
  property is absent (reading it gives \<open>undefined\<close>). The field \<open>id\<close> of the source is
  \<open>step_id\<close> here. \<open>timestamp\<close> is the time value of the \<open>Date\<close> object.
\<close>

record 'r ThinkingStep =
  step_id :: jsstring
  title :: jsstring
  description :: jsstring
  status :: StepStatus
  result :: "'r option"
  error :: "jsstring option"
  timestamp :: int

text \<open>The constructor's argument type \<open>Omit<ThinkingStep, 'id' | 'status' | 'timestamp'>\<close>.\<close>

record 'r StepInput =
  in_title :: jsstring
  in_description :: jsstring
  in_result :: "'r option"
  in_error :: "jsstring option"

record ('r, 'm) SequentialThinkingContext =
  steps :: "'r ThinkingStep list"
  currentStepIndex :: int
  isProcessing :: bool
  metadata :: "jsstring \<rightharpoonup> 'm"

text \<open>
  The object \<open>SequentialThinking\<close>: its context, the calls made so far to the observer
  \<open>onStepUpdate\<close> (each with the step and the context as they were at the call), and the
  number of \<open>new Date()\<close> readings taken so far. The wall clock is a parameter \<open>now\<close> of
  the operations: \<open>now k\<close> is the time value of the \<open>k\<close>-th reading, with nothing assumed
  about it.
\<close>

record ('r, 'm) SequentialThinking =
  ctx :: "('r, 'm) SequentialThinkingContext"
  updates :: "('r ThinkingStep \<times> ('r, 'm) SequentialThinkingContext) list"
  clockReads :: nat

text \<open>
  An executor is given the step and the context and either returns a result (\<open>Inr\<close>) or
  throws; \<open>Inl\<close> carries the message that \<open>executeStep\<close> stores
  (\<open>error.message\<close> or \<open>String(error)\<close>). Executors are functions of what they are
  given: they do not write to the orchestrator's context. (One executor of the resume
  analyzer, \<open>assessExperience\<close>, also sorts in place an array inside the result of an
  earlier step; that effect is modelled with the function itself, further down.)
\<close>

type_synonym ('r, 'm) executor =
  "'r ThinkingStep \<Rightarrow> ('r, 'm) SequentialThinkingContext \<Rightarrow> jsstring + 'r"

datatype OrchestratorError = StepNotFound jsstring | NoExecutorFound jsstring

subsection \<open>Operations\<close>

definition mkStep :: "(nat \<Rightarrow> int) \<Rightarrow> nat \<Rightarrow> 'r StepInput \<Rightarrow> 'r ThinkingStep" where
  "mkStep now index inp =
     \<lparr> step_id = ascii ''step-'' @ decimal index,
       title = in_title inp,
       description = in_description inp,
       status = Pending,
       result = in_result inp,
       error = in_error inp,
       timestamp = now index \<rparr>"

definition construct :: "(nat \<Rightarrow> int) \<Rightarrow> 'r StepInput list \<Rightarrow> ('r, 'm) SequentialThinking" where
  "construct now inputs =
     \<lparr> ctx =
         \<lparr> steps = map (\<lambda>(index, inp). mkStep now index inp) (zip [0..<length inputs] inputs),
           currentStepIndex = 0,
           isProcessing = False,
           metadata = Map.empty \<rparr>,
       updates = [],
       clockReads = length inputs \<rparr>"

text \<open>\<open>Array.prototype.findIndex\<close>-style search: the position of the first match.\<close>

fun findIndex :: "('a \<Rightarrow> bool) \<Rightarrow> 'a list \<Rightarrow> nat option" where
  "findIndex P [] = None"
| "findIndex P (x # xs) =
     (if P x then Some 0 else map_option Suc (findIndex P xs))"

text \<open>
  \<open>executeStep\<close>. The step object found by \<open>find\<close> is the first one with the given id;
  the model keeps its position \<open>p\<close> and writes to that position. A thrown
  \<open>StepNotFound\<close> leaves the object as it was.
\<close>

definition executeStep ::
  "(nat \<Rightarrow> int) \<Rightarrow> ('r, 'm) SequentialThinking \<Rightarrow> jsstring \<Rightarrow> ('r, 'm) executor
     \<Rightarrow> OrchestratorError option \<times> ('r, 'm) SequentialThinking" where
  "executeStep now st stepId executor =
     (case findIndex (\<lambda>s. step_id s = stepId) (steps (ctx st)) of
        None \<Rightarrow> (Some (StepNotFound stepId), st)
      | Some p \<Rightarrow>
          let c0 = ctx st;
              s1 = (steps c0 ! p)\<lparr> status := Processing, timestamp := now (clockReads st) \<rparr>;
              c1 = c0\<lparr> steps := (steps c0)[p := s1], isProcessing := True \<rparr>;
              t2 = now (clockReads st + 1);
              c2 = (case executor s1 c1 of
                      Inr r \<Rightarrow>
                        let s2 = s1\<lparr> result := Some r, status := Completed, timestamp := t2 \<rparr>;
                            c = c1\<lparr> steps := (steps c1)[p := s2] \<rparr>
                        in if currentStepIndex c < int (length (steps c)) - 1
                           then c\<lparr> currentStepIndex := currentStepIndex c + 1 \<rparr>
                           else c
                    | Inl msg \<Rightarrow>
                        let s2 = s1\<lparr> error := Some msg, status := Error, timestamp := t2 \<rparr>
                        in c1\<lparr> steps := (steps c1)[p := s2] \<rparr>);
              c3 = c2\<lparr> isProcessing := False \<rparr>
          in (None,
              \<lparr> ctx = c3,
                updates = updates st @ [(s1, c1), (steps c3 ! p, c3)],
                clockReads = clockReads st + 2 \<rparr>))"

text \<open>
  \<open>executeAll\<close>: the \<open>for ... of\<close> loop over the step array, from position \<open>i\<close> on.
  \<open>executors[step.id] || executors['default']\<close> is the lookup \<open>lookupExecutor\<close>. An
  exception leaves the loop with the state reached so far.
\<close>

definition lookupExecutor ::
  "(jsstring \<rightharpoonup> ('r, 'm) executor) \<Rightarrow> jsstring \<Rightarrow> ('r, 'm) executor option" where
  "lookupExecutor executors sid =
     (case executors sid of Some e \<Rightarrow> Some e | None \<Rightarrow> executors (ascii ''default''))"

function executeAllFrom ::
  "(nat \<Rightarrow> int) \<Rightarrow> (jsstring \<rightharpoonup> ('r, 'm) executor) \<Rightarrow> nat \<Rightarrow> ('r, 'm) SequentialThinking
     \<Rightarrow> OrchestratorError option \<times> ('r, 'm) SequentialThinking" where
  "executeAllFrom now executors i st =
     (if i < length (steps (ctx st)) then
        let step = steps (ctx st) ! i in
        if status step = Completed then executeAllFrom now executors (i + 1) st
        else
          (case lookupExecutor executors (step_id step) of
             None \<Rightarrow> (Some (NoExecutorFound (step_id step)), st)
           | Some executor \<Rightarrow>
               (case executeStep now st (step_id step) executor of
                  (Some e, st') \<Rightarrow> (Some e, st')
                | (None, st') \<Rightarrow>
                    if status (steps (ctx st') ! i) = Error then (None, st')
                    else executeAllFrom now executors (i + 1) st'))
      else (None, st))"
  by pat_completeness auto

lemma executeStep_length:
  "length (steps (ctx (snd (executeStep now st sid e)))) = length (steps (ctx st))"
  by (simp add: executeStep_def Let_def split: option.split sum.split)

termination executeAllFrom
  apply (relation "measure (\<lambda>(now, executors, i, st). length (steps (ctx st)) - i)")
    apply simp
   apply simp
  apply simp
  apply (metis executeStep_length snd_conv diff_less_mono2 lessI)
  done

declare executeAllFrom.simps [simp del]

definition executeAll ::
  "(nat \<Rightarrow> int) \<Rightarrow> (jsstring \<rightharpoonup> ('r, 'm) executor) \<Rightarrow> ('r, 'm) SequentialThinking
     \<Rightarrow> OrchestratorError option \<times> ('r, 'm) SequentialThinking" where
  "executeAll now executors st = executeAllFrom now executors 0 st"

text \<open>
  The accessors. \<open>getContext\<close> copies the envelope only, so its value is the context.
  \<open>getCurrentStep\<close> gives \<open>null\<close> (\<open>None\<close>) when the index is outside the array.
  \<open>getStepResult\<close> gives \<open>undefined\<close> (\<open>None\<close>) when no step has the id or the step
  has no result. \<open>getMetadata\<close> gives the whole bag when the key is absent or is the
  empty string (both are falsy), and otherwise what the property access
  \<open>metadata[key]\<close> gives: the entry of the key, or without an entry the property that
  the bag, an object literal, inherits from \<open>Object.prototype\<close> under that name (as
  for \<open>constructor\<close> or \<open>toString\<close>), or \<open>undefined\<close>. The inherited properties are
  the parameter \<open>inherited\<close>.
\<close>

definition getContext :: "('r, 'm) SequentialThinking \<Rightarrow> ('r, 'm) SequentialThinkingContext" where
  "getContext st = ctx st"

definition getCurrentStep :: "('r, 'm) SequentialThinking \<Rightarrow> 'r ThinkingStep option" where
  "getCurrentStep st =
     (let i = currentStepIndex (ctx st) in
      if 0 \<le> i \<and> i < int (length (steps (ctx st))) then Some (steps (ctx st) ! nat i)
      else None)"

definition getStepResult :: "('r, 'm) SequentialThinking \<Rightarrow> jsstring \<Rightarrow> 'r option" where
  "getStepResult st stepId =
     (case find (\<lambda>s. step_id s = stepId) (steps (ctx st)) of
        None \<Rightarrow> None
      | Some step \<Rightarrow> result step)"

definition updateMetadata ::
  "('r, 'm) SequentialThinking \<Rightarrow> jsstring \<Rightarrow> 'm \<Rightarrow> ('r, 'm) SequentialThinking" where
  "updateMetadata st key v =
     st\<lparr> ctx := (ctx st)\<lparr> metadata := (metadata (ctx st))(key \<mapsto> v) \<rparr> \<rparr>"

definition getMetadata ::
  "(jsstring \<rightharpoonup> 'm) \<Rightarrow> ('r, 'm) SequentialThinking \<Rightarrow> jsstring option
     \<Rightarrow> (jsstring \<rightharpoonup> 'm) + 'm option" where
  "getMetadata inherited st key =
     (case key of
        None \<Rightarrow> Inl (metadata (ctx st))
      | Some k \<Rightarrow>
          if k = [] then Inl (metadata (ctx st))
          else Inr (case metadata (ctx st) k of
                      Some v \<Rightarrow> Some v
                    | None \<Rightarrow> inherited k))"

text \<open>
  The states that a program can reach: the constructor's, and those the public operations
  lead to.
\<close>

inductive reachable :: "(nat \<Rightarrow> int) \<Rightarrow> ('r, 'm) SequentialThinking \<Rightarrow> bool"
  for now :: "nat \<Rightarrow> int" where
  reachable_construct: "reachable now (construct now inputs)"
| reachable_executeStep:
    "reachable now st \<Longrightarrow> reachable now (snd (executeStep now st stepId executor))"
| reachable_executeAll:
    "reachable now st \<Longrightarrow> reachable now (snd (executeAll now executors st))"
| reachable_updateMetadata:
    "reachable now st \<Longrightarrow> reachable now (updateMetadata st key v)"


subsection \<open>Predicates used in the proofs\<close>

text \<open>
  \<open>loopFrame i st st'\<close>: what a run of the loop from position \<open>i\<close> leaves as it was.
  \<open>ranThrough\<close> and \<open>stoppedAt\<close>: the two ways a run with all executors bound ends.
\<close>

definition loopFrame ::
  "nat \<Rightarrow> ('r, 'm) SequentialThinking \<Rightarrow> ('r, 'm) SequentialThinking \<Rightarrow> bool" where
  "loopFrame i st st' \<longleftrightarrow>
     map step_id (steps (ctx st')) = map step_id (steps (ctx st)) \<and>
     (\<forall>j<length (steps (ctx st)). (j < i \<or> status (steps (ctx st) ! j) = Completed)
         \<longrightarrow> steps (ctx st') ! j = steps (ctx st) ! j) \<and>
     (\<forall>j<length (steps (ctx st)). status (steps (ctx st') ! j) = Pending
         \<longrightarrow> steps (ctx st') ! j = steps (ctx st) ! j) \<and>
     currentStepIndex (ctx st) \<le> currentStepIndex (ctx st') \<and>
     metadata (ctx st') = metadata (ctx st) \<and>
     (\<exists>new. updates st' = updates st @ new \<and>
        (\<forall>x\<in>set new. \<exists>j. i \<le> j \<and> j < length (steps (ctx st))
            \<and> status (steps (ctx st) ! j) \<noteq> Completed
            \<and> step_id (fst x) = step_id (steps (ctx st) ! j)))"

definition stoppedAt ::
  "nat \<Rightarrow> nat \<Rightarrow> ('r, 'm) SequentialThinking \<Rightarrow> ('r, 'm) SequentialThinking \<Rightarrow> bool" where
  "stoppedAt i k st st' \<longleftrightarrow>
     i \<le> k \<and> k < length (steps (ctx st)) \<and>
     status (steps (ctx st') ! k) = Error \<and>
     result (steps (ctx st') ! k) = result (steps (ctx st) ! k) \<and>
     (\<forall>j. i \<le> j \<and> j < k \<longrightarrow> status (steps (ctx st') ! j) = Completed
                                  \<and> result (steps (ctx st') ! j) \<noteq> None) \<and>
     (\<forall>j. k < j \<and> j < length (steps (ctx st)) \<longrightarrow> steps (ctx st') ! j = steps (ctx st) ! j) \<and>
     currentStepIndex (ctx st') = int k \<and>
     (\<forall>x\<in>set (drop (length (updates st)) (updates st')).
        \<exists>j. i \<le> j \<and> j \<le> k \<and> step_id (fst x) = step_id (steps (ctx st) ! j))"

definition ranThrough ::
  "nat \<Rightarrow> ('r, 'm) SequentialThinking \<Rightarrow> ('r, 'm) SequentialThinking \<Rightarrow> bool" where
  "ranThrough i st st' \<longleftrightarrow>
     (\<forall>j. i \<le> j \<and> j < length (steps (ctx st)) \<longrightarrow> status (steps (ctx st') ! j) = Completed
                                  \<and> result (steps (ctx st') ! j) \<noteq> None) \<and>
     currentStepIndex (ctx st') = int (length (steps (ctx st))) - 1"



subsection \<open>Concrete runs\<close>

text \<open>Three steps, an executor that returns and one that throws.\<close>

definition threeSteps :: "nat StepInput list" where
  "threeSteps =
     [ \<lparr> in_title = ascii ''Parse'', in_description = [], in_result = None, in_error = None \<rparr>,
       \<lparr> in_title = ascii ''Profile'', in_description = [], in_result = None, in_error = None \<rparr>,
       \<lparr> in_title = ascii ''Skills'', in_description = [], in_result = None, in_error = None \<rparr> ]"

definition succeeding :: "(nat, nat) executor" where
  "succeeding step c = Inr (length (steps c))"

definition failing :: "(nat, nat) executor" where
  "failing step c = Inl (ascii ''stage failed'')"

definition allSucceed :: "jsstring \<rightharpoonup> (nat, nat) executor" where
  "allSucceed = [ascii ''default'' \<mapsto> succeeding]"

definition secondFails :: "jsstring \<rightharpoonup> (nat, nat) executor" where
  "secondFails = [ascii ''default'' \<mapsto> succeeding, ascii ''step-1'' \<mapsto> failing]"

definition freshRun :: "(nat, nat) SequentialThinking" where
  "freshRun = construct int threeSteps"

definition afterFailure :: "(nat, nat) SequentialThinking" where
  "afterFailure = snd (executeAll int secondFails freshRun)"

definition noSteps :: "(nat, nat) SequentialThinking" where
  "noSteps = construct int []"

subsection \<open>Facts about the orchestrator\<close>

lemma findIndex_Some:
  "findIndex P xs = Some p \<Longrightarrow> p < length xs \<and> P (xs ! p) \<and> (\<forall>j<p. \<not> P (xs ! j))"
proof (induction xs arbitrary: p)
  case Nil
  then show ?case by simp
next
  case (Cons x xs)
  show ?case
  proof (cases "P x")
    case True
    with Cons.prems show ?thesis by simp
  next
    case False
    with Cons.prems obtain q where q: "findIndex P xs = Some q" and p: "p = Suc q"
      by auto
    from Cons.IH [OF q] False p show ?thesis
      by (auto simp: nth_Cons split: nat.split)
  qed
qed

lemma findIndex_None: "findIndex P xs = None \<longleftrightarrow> (\<forall>x\<in>set xs. \<not> P x)"
  by (induction xs) auto

lemma find_findIndex: "find P xs = map_option (\<lambda>p. xs ! p) (findIndex P xs)"
  by (induction xs) (auto simp: option.map_comp comp_def)

lemma findIndex_distinct:
  assumes "distinct (map f xs)" and "i < length xs"
  shows "findIndex (\<lambda>s. f s = f (xs ! i)) xs = Some i"
proof (cases "findIndex (\<lambda>s. f s = f (xs ! i)) xs")
  case None
  then show ?thesis using assms(2) by (auto simp: findIndex_None)
next
  case (Some p)
  from findIndex_Some [OF Some] have "p < length xs" and "f (xs ! p) = f (xs ! i)"
    by auto
  then have "p = i"
    using assms by (metis distinct_conv_nth length_map nth_map)
  with Some show ?thesis by simp
qed

lemma decimal_nonempty: "decimal n \<noteq> []"
  by (subst decimal.simps) simp

lemma decimal_inj: "decimal m = decimal n \<Longrightarrow> m = n"
proof (induction m arbitrary: n rule: decimal.induct)
  case (1 m)
  show ?case
  proof (cases "m < 10")
    case True
    then have m: "decimal m = [48 + m]" by (subst decimal.simps) simp
    show ?thesis
    proof (cases "n < 10")
      case True
      then have "decimal n = [48 + n]" by (subst decimal.simps) simp
      with m "1.prems" show ?thesis by simp
    next
      case False
      then have "decimal n = decimal (n div 10) @ [48 + n mod 10]"
        by (subst decimal.simps) simp
      with m "1.prems" decimal_nonempty [of "n div 10"] show ?thesis
        by (cases "decimal (n div 10)") auto
    qed
  next
    case False
    then have m: "decimal m = decimal (m div 10) @ [48 + m mod 10]"
      by (subst decimal.simps) simp
    show ?thesis
    proof (cases "n < 10")
      case True
      then have "decimal n = [48 + n]" by (subst decimal.simps) simp
      with m "1.prems" decimal_nonempty [of "m div 10"] show ?thesis
        by (cases "decimal (m div 10)") auto
    next
      case nf: False
      then have n: "decimal n = decimal (n div 10) @ [48 + n mod 10]"
        by (subst decimal.simps) simp
      from m n "1.prems" have a: "decimal (m div 10) = decimal (n div 10)"
        and b: "m mod 10 = n mod 10" by auto
      from "1.IH" [OF False a] have "m div 10 = n div 10" .
      with b show ?thesis by (metis div_mult_mod_eq)
    qed
  qed
qed

lemma construct_ids:
  "map step_id (steps (ctx (construct now inputs))) =
     map (\<lambda>i. ascii ''step-'' @ decimal i) [0..<length inputs]"
  by (auto simp: construct_def mkStep_def intro!: nth_equalityI)

lemma construct_distinct: "distinct (map step_id (steps (ctx (construct now inputs))))"
  unfolding construct_ids
  by (auto simp: distinct_map inj_on_def dest: decimal_inj)

lemma executeStep_notfound:
  "findIndex (\<lambda>s. step_id s = sid) (steps (ctx st)) = None \<Longrightarrow>
     executeStep now st sid e = (Some (StepNotFound sid), st)"
  by (simp add: executeStep_def)

lemma executeStep_found:
  fixes now :: "nat \<Rightarrow> int" and st :: "('r, 'm) SequentialThinking" and e :: "('r, 'm) executor"
  assumes f: "findIndex (\<lambda>s. step_id s = sid) (steps (ctx st)) = Some p"
  defines "s1 \<equiv> (steps (ctx st) ! p)\<lparr> status := Processing, timestamp := now (clockReads st) \<rparr>"
  defines "c1 \<equiv> (ctx st)\<lparr> steps := (steps (ctx st))[p := s1], isProcessing := True \<rparr>"
  defines "st' \<equiv> snd (executeStep now st sid e)"
  shows "fst (executeStep now st sid e) = None"
    and "steps (ctx st') = (steps (ctx st))[p := steps (ctx st') ! p]"
    and "e s1 c1 = Inr r \<Longrightarrow>
           steps (ctx st') ! p = s1\<lparr> result := Some r, status := Completed,
                                     timestamp := now (clockReads st + 1) \<rparr>"
    and "e s1 c1 = Inl m \<Longrightarrow>
           steps (ctx st') ! p = s1\<lparr> error := Some m, status := Error,
                                     timestamp := now (clockReads st + 1) \<rparr>"
    and "currentStepIndex (ctx st') =
           (if isl (e s1 c1) \<or> \<not> currentStepIndex (ctx st) < int (length (steps (ctx st))) - 1
            then currentStepIndex (ctx st) else currentStepIndex (ctx st) + 1)"
    and "metadata (ctx st') = metadata (ctx st)"
    and "isProcessing (ctx st') = False"
    and "updates st' = updates st @ [(s1, c1), (steps (ctx st') ! p, ctx st')]"
    and "clockReads st' = clockReads st + 2"
proof -
  from findIndex_Some [OF f] have p: "p < length (steps (ctx st))" by simp
  show "fst (executeStep now st sid e) = None"
    using f by (simp add: executeStep_def Let_def)
  show "steps (ctx st') = (steps (ctx st))[p := steps (ctx st') ! p]"
    using f p by (simp add: st'_def executeStep_def Let_def split: sum.split)
  show "e s1 c1 = Inr r \<Longrightarrow>
           steps (ctx st') ! p = s1\<lparr> result := Some r, status := Completed,
                                     timestamp := now (clockReads st + 1) \<rparr>"
    using f p by (simp add: st'_def s1_def c1_def executeStep_def Let_def)
  show "e s1 c1 = Inl m \<Longrightarrow>
           steps (ctx st') ! p = s1\<lparr> error := Some m, status := Error,
                                     timestamp := now (clockReads st + 1) \<rparr>"
    using f p by (simp add: st'_def s1_def c1_def executeStep_def Let_def)
  show "currentStepIndex (ctx st') =
           (if isl (e s1 c1) \<or> \<not> currentStepIndex (ctx st) < int (length (steps (ctx st))) - 1
            then currentStepIndex (ctx st) else currentStepIndex (ctx st) + 1)"
    using f p by (simp add: st'_def s1_def c1_def executeStep_def Let_def split: sum.split)
  show "metadata (ctx st') = metadata (ctx st)"
    using f by (simp add: st'_def executeStep_def Let_def split: sum.split)
  show "isProcessing (ctx st') = False"
    using f by (simp add: st'_def executeStep_def Let_def split: sum.split)
  show "updates st' = updates st @ [(s1, c1), (steps (ctx st') ! p, ctx st')]"
    using f by (simp add: st'_def s1_def c1_def executeStep_def Let_def split: sum.split)
  show "clockReads st' = clockReads st + 2"
    using f by (simp add: st'_def executeStep_def Let_def split: sum.split)
qed

lemma executeStep_at:
  fixes now :: "nat \<Rightarrow> int" and st :: "('r, 'm) SequentialThinking" and e :: "('r, 'm) executor"
  assumes d: "distinct (map step_id (steps (ctx st)))" and i: "i < length (steps (ctx st))"
  defines "st' \<equiv> snd (executeStep now st (step_id (steps (ctx st) ! i)) e)"
  shows "fst (executeStep now st (step_id (steps (ctx st) ! i)) e) = None"
    and "length (steps (ctx st')) = length (steps (ctx st))"
    and "\<And>j. j \<noteq> i \<Longrightarrow> steps (ctx st') ! j = steps (ctx st) ! j"
    and "status (steps (ctx st') ! i) = Completed \<or> status (steps (ctx st') ! i) = Error"
    and "step_id (steps (ctx st') ! i) = step_id (steps (ctx st) ! i)"
    and "currentStepIndex (ctx st') =
           (if status (steps (ctx st') ! i) = Completed
               \<and> currentStepIndex (ctx st) < int (length (steps (ctx st))) - 1
            then currentStepIndex (ctx st) + 1 else currentStepIndex (ctx st))"
    and "metadata (ctx st') = metadata (ctx st)"
    and "\<exists>c1 c2 s1. updates st' = updates st @ [(s1, c1), (steps (ctx st') ! i, c2)]
           \<and> step_id s1 = step_id (steps (ctx st) ! i) \<and> status s1 = Processing"
    and "status (steps (ctx st') ! i) = Completed \<longrightarrow> result (steps (ctx st') ! i) \<noteq> None"
    and "status (steps (ctx st') ! i) = Error \<longrightarrow>
           result (steps (ctx st') ! i) = result (steps (ctx st) ! i)"
proof -
  let ?sid = "step_id (steps (ctx st) ! i)"
  have f: "findIndex (\<lambda>s. step_id s = ?sid) (steps (ctx st)) = Some i"
    using findIndex_distinct [OF d i] .
  note F = executeStep_found [OF f, where now = now and e = e]
  let ?s1 = "(steps (ctx st) ! i)\<lparr> status := Processing, timestamp := now (clockReads st) \<rparr>"
  let ?c1 = "(ctx st)\<lparr> steps := (steps (ctx st))[i := ?s1], isProcessing := True \<rparr>"
  show "fst (executeStep now st ?sid e) = None" by (rule F(1))
  show len: "length (steps (ctx st')) = length (steps (ctx st))"
    unfolding st'_def by (rule executeStep_length)
  show "\<And>j. j \<noteq> i \<Longrightarrow> steps (ctx st') ! j = steps (ctx st) ! j"
    using F(2) unfolding st'_def by (metis nth_list_update_neq)
  show "status (steps (ctx st') ! i) = Completed \<or> status (steps (ctx st') ! i) = Error"
  proof (cases "e ?s1 ?c1")
    case (Inl m)
    from F(4) [OF Inl] show ?thesis by (simp add: st'_def)
  next
    case (Inr r)
    from F(3) [OF Inr] show ?thesis by (simp add: st'_def)
  qed
  show "step_id (steps (ctx st') ! i) = step_id (steps (ctx st) ! i)"
  proof (cases "e ?s1 ?c1")
    case (Inl m)
    from F(4) [OF Inl] show ?thesis by (simp add: st'_def)
  next
    case (Inr r)
    from F(3) [OF Inr] show ?thesis by (simp add: st'_def)
  qed
  show "currentStepIndex (ctx st') =
           (if status (steps (ctx st') ! i) = Completed
               \<and> currentStepIndex (ctx st) < int (length (steps (ctx st))) - 1
            then currentStepIndex (ctx st) + 1 else currentStepIndex (ctx st))"
  proof (cases "e ?s1 ?c1")
    case (Inl m)
    from F(4) [OF Inl] F(5) Inl show ?thesis by (simp add: st'_def)
  next
    case (Inr r)
    from F(3) [OF Inr] F(5) Inr show ?thesis by (simp add: st'_def)
  qed
  show "metadata (ctx st') = metadata (ctx st)"
    unfolding st'_def by (rule F(6))
  show "\<exists>c1 c2 s1. updates st' = updates st @ [(s1, c1), (steps (ctx st') ! i, c2)]
           \<and> step_id s1 = step_id (steps (ctx st) ! i) \<and> status s1 = Processing"
    using F(8) unfolding st'_def by (intro exI [of _ ?c1] exI [of _ "ctx (snd (executeStep now st ?sid e))"] exI [of _ ?s1]) simp
  show "status (steps (ctx st') ! i) = Completed \<longrightarrow> result (steps (ctx st') ! i) \<noteq> None"
  proof (cases "e ?s1 ?c1")
    case (Inl m)
    from F(4) [OF Inl] show ?thesis by (simp add: st'_def)
  next
    case (Inr r)
    from F(3) [OF Inr] show ?thesis by (simp add: st'_def)
  qed
  show "status (steps (ctx st') ! i) = Error \<longrightarrow>
           result (steps (ctx st') ! i) = result (steps (ctx st) ! i)"
  proof (cases "e ?s1 ?c1")
    case (Inl m)
    from F(4) [OF Inl] show ?thesis by (simp add: st'_def)
  next
    case (Inr r)
    from F(3) [OF Inr] show ?thesis by (simp add: st'_def)
  qed
qed

lemma executeAllFrom_end:
  "\<not> i < length (steps (ctx st)) \<Longrightarrow> executeAllFrom now executors i st = (None, st)"
  by (subst executeAllFrom.simps) simp

lemma executeAllFrom_skip:
  "i < length (steps (ctx st)) \<Longrightarrow> status (steps (ctx st) ! i) = Completed \<Longrightarrow>
     executeAllFrom now executors i st = executeAllFrom now executors (i + 1) st"
  by (subst executeAllFrom.simps) simp

lemma executeAllFrom_noexec:
  "i < length (steps (ctx st)) \<Longrightarrow> status (steps (ctx st) ! i) \<noteq> Completed \<Longrightarrow>
   lookupExecutor executors (step_id (steps (ctx st) ! i)) = None \<Longrightarrow>
     executeAllFrom now executors i st = (Some (NoExecutorFound (step_id (steps (ctx st) ! i))), st)"
  by (subst executeAllFrom.simps) simp

lemma executeAllFrom_run:
  assumes "distinct (map step_id (steps (ctx st)))" and "i < length (steps (ctx st))"
    and "status (steps (ctx st) ! i) \<noteq> Completed"
    and "lookupExecutor executors (step_id (steps (ctx st) ! i)) = Some e"
  shows "executeAllFrom now executors i st =
     (let st' = snd (executeStep now st (step_id (steps (ctx st) ! i)) e) in
      if status (steps (ctx st') ! i) = Error then (None, st')
      else executeAllFrom now executors (i + 1) st')"
proof -
  obtain st' where st': "executeStep now st (step_id (steps (ctx st) ! i)) e = (None, st')"
    using executeStep_at(1) [OF assms(1,2), where now = now and e = e] by (metis prod.collapse)
  show ?thesis
    using assms(2-4) st' by (subst executeAllFrom.simps) (simp add: Let_def)
qed

lemma loopFrame_refl: "loopFrame i st st"
  by (simp add: loopFrame_def)

lemma loopFrame_length: "loopFrame i st st' \<Longrightarrow> length (steps (ctx st')) = length (steps (ctx st))"
  unfolding loopFrame_def by (metis length_map)

lemma loopFrame_keep:
  "loopFrame i st st' \<Longrightarrow> j < length (steps (ctx st)) \<Longrightarrow>
     j < i \<or> status (steps (ctx st) ! j) = Completed \<Longrightarrow>
     steps (ctx st') ! j = steps (ctx st) ! j"
  unfolding loopFrame_def by blast

lemma loopFrame_pending:
  "loopFrame i st st' \<Longrightarrow> j < length (steps (ctx st)) \<Longrightarrow>
     status (steps (ctx st') ! j) = Pending \<Longrightarrow>
     steps (ctx st') ! j = steps (ctx st) ! j"
  unfolding loopFrame_def by blast

lemma loopFrame_weaken: "loopFrame (Suc i) st st' \<Longrightarrow> loopFrame i st st'"
  unfolding loopFrame_def
  apply (elim conjE exE)
  apply (intro conjI)
       apply assumption
      apply (metis less_Suc_eq)
     apply assumption
    apply assumption
   apply assumption
  apply (metis Suc_leD)
  done

lemma executeStep_ids:
  assumes d: "distinct (map step_id (steps (ctx st)))" and i: "i < length (steps (ctx st))"
  shows "map step_id (steps (ctx (snd (executeStep now st (step_id (steps (ctx st) ! i)) e))))
           = map step_id (steps (ctx st))"
proof (rule nth_equalityI)
  note A = executeStep_at [OF d i, where now = now and e = e]
  show "length (map step_id (steps (ctx (snd (executeStep now st (step_id (steps (ctx st) ! i)) e)))))
          = length (map step_id (steps (ctx st)))"
    using A(2) by simp
  fix j
  assume "j < length (map step_id (steps (ctx (snd (executeStep now st (step_id (steps (ctx st) ! i)) e)))))"
  then have j: "j < length (steps (ctx st))" using A(2) by simp
  show "map step_id (steps (ctx (snd (executeStep now st (step_id (steps (ctx st) ! i)) e)))) ! j
          = map step_id (steps (ctx st)) ! j"
    using A(2) A(3) [of j] A(5) j by (cases "j = i") simp_all
qed

lemma loopFrame_executeStep:
  assumes d: "distinct (map step_id (steps (ctx st)))" and i: "i < length (steps (ctx st))"
    and nc: "status (steps (ctx st) ! i) \<noteq> Completed"
  shows "loopFrame i st (snd (executeStep now st (step_id (steps (ctx st) ! i)) e))"
proof -
  let ?st' = "snd (executeStep now st (step_id (steps (ctx st) ! i)) e)"
  note A = executeStep_at [OF d i, where now = now and e = e]
  have 1: "map step_id (steps (ctx ?st')) = map step_id (steps (ctx st))"
    by (rule executeStep_ids [OF d i])
  have 2: "\<forall>j<length (steps (ctx st)). (j < i \<or> status (steps (ctx st) ! j) = Completed)
         \<longrightarrow> steps (ctx ?st') ! j = steps (ctx st) ! j"
    using A(3) nc by (metis less_irrefl)
  have 3: "\<forall>j<length (steps (ctx st)). status (steps (ctx ?st') ! j) = Pending
         \<longrightarrow> steps (ctx ?st') ! j = steps (ctx st) ! j"
    using A(3) A(4) by (metis StepStatus.distinct(3,5))
  have 4: "currentStepIndex (ctx st) \<le> currentStepIndex (ctx ?st')"
    using A(6) by simp
  have 5: "metadata (ctx ?st') = metadata (ctx st)" by (rule A(7))
  from A(8) obtain c1 c2 s1 where
    u: "updates ?st' = updates st @ [(s1, c1), (steps (ctx ?st') ! i, c2)]"
    and s1: "step_id s1 = step_id (steps (ctx st) ! i)" by blast
  have 6: "\<exists>new. updates ?st' = updates st @ new \<and>
        (\<forall>x\<in>set new. \<exists>j. i \<le> j \<and> j < length (steps (ctx st))
            \<and> status (steps (ctx st) ! j) \<noteq> Completed
            \<and> step_id (fst x) = step_id (steps (ctx st) ! j))"
    apply (rule exI [of _ "[(s1, c1), (steps (ctx ?st') ! i, c2)]"])
    using u s1 A(5) i nc by auto
  show ?thesis
    unfolding loopFrame_def using 1 2 3 4 5 6 by blast
qed

lemma loopFrame_trans:
  assumes a: "loopFrame i st st1" and b: "loopFrame (Suc i) st1 st'"
    and ti: "i < length (steps (ctx st))"
    and done_i: "status (steps (ctx st1) ! i) \<noteq> Pending"
    and same: "\<forall>j<length (steps (ctx st)). j \<noteq> i \<longrightarrow> steps (ctx st1) ! j = steps (ctx st) ! j"
    and nc: "status (steps (ctx st) ! i) \<noteq> Completed"
  shows "loopFrame i st st'"
proof -
  have len: "length (steps (ctx st1)) = length (steps (ctx st))"
    using a by (rule loopFrame_length)
  have 1: "map step_id (steps (ctx st')) = map step_id (steps (ctx st))"
    using a b by (simp add: loopFrame_def)
  have 2: "\<forall>j<length (steps (ctx st)). (j < i \<or> status (steps (ctx st) ! j) = Completed)
         \<longrightarrow> steps (ctx st') ! j = steps (ctx st) ! j"
  proof (intro allI impI)
    fix j assume j: "j < length (steps (ctx st))"
      and h: "j < i \<or> status (steps (ctx st) ! j) = Completed"
    then have ji: "j \<noteq> i" using nc by auto
    have e1: "steps (ctx st1) ! j = steps (ctx st) ! j" using same j ji by simp
    have "j < Suc i \<or> status (steps (ctx st1) ! j) = Completed" using h e1 by auto
    then have "steps (ctx st') ! j = steps (ctx st1) ! j"
      using loopFrame_keep [OF b, of j] j len by simp
    with e1 show "steps (ctx st') ! j = steps (ctx st) ! j" by simp
  qed
  have 3: "\<forall>j<length (steps (ctx st)). status (steps (ctx st') ! j) = Pending
         \<longrightarrow> steps (ctx st') ! j = steps (ctx st) ! j"
  proof (intro allI impI)
    fix j assume j: "j < length (steps (ctx st))"
      and h: "status (steps (ctx st') ! j) = Pending"
    have e2: "steps (ctx st') ! j = steps (ctx st1) ! j"
      using loopFrame_pending [OF b, of j] j len h by simp
    then have "status (steps (ctx st1) ! j) = Pending" using h by simp
    then have "steps (ctx st1) ! j = steps (ctx st) ! j"
      using loopFrame_pending [OF a, of j] j by simp
    with e2 show "steps (ctx st') ! j = steps (ctx st) ! j" by simp
  qed
  have 4: "currentStepIndex (ctx st) \<le> currentStepIndex (ctx st')"
    using a b unfolding loopFrame_def by linarith
  have 5: "metadata (ctx st') = metadata (ctx st)"
    using a b unfolding loopFrame_def by simp
  from a obtain n1 where n1: "updates st1 = updates st @ n1"
    and p1: "\<forall>x\<in>set n1. \<exists>j. i \<le> j \<and> j < length (steps (ctx st))
            \<and> status (steps (ctx st) ! j) \<noteq> Completed
            \<and> step_id (fst x) = step_id (steps (ctx st) ! j)"
    unfolding loopFrame_def by blast
  from b obtain n2 where n2: "updates st' = updates st1 @ n2"
    and p2: "\<forall>x\<in>set n2. \<exists>j. Suc i \<le> j \<and> j < length (steps (ctx st1))
            \<and> status (steps (ctx st1) ! j) \<noteq> Completed
            \<and> step_id (fst x) = step_id (steps (ctx st1) ! j)"
    unfolding loopFrame_def by blast
  have p2': "\<forall>x\<in>set n2. \<exists>j. i \<le> j \<and> j < length (steps (ctx st))
            \<and> status (steps (ctx st) ! j) \<noteq> Completed
            \<and> step_id (fst x) = step_id (steps (ctx st) ! j)"
  proof
    fix x assume "x \<in> set n2"
    with p2 obtain j where j: "Suc i \<le> j" "j < length (steps (ctx st1))"
      "status (steps (ctx st1) ! j) \<noteq> Completed" "step_id (fst x) = step_id (steps (ctx st1) ! j)"
      by blast
    have "steps (ctx st1) ! j = steps (ctx st) ! j" using same j len by simp
    with j len show "\<exists>j. i \<le> j \<and> j < length (steps (ctx st))
            \<and> status (steps (ctx st) ! j) \<noteq> Completed
            \<and> step_id (fst x) = step_id (steps (ctx st) ! j)"
      by (intro exI [of _ j]) simp
  qed
  have 6: "\<exists>new. updates st' = updates st @ new \<and>
        (\<forall>x\<in>set new. \<exists>j. i \<le> j \<and> j < length (steps (ctx st))
            \<and> status (steps (ctx st) ! j) \<noteq> Completed
            \<and> step_id (fst x) = step_id (steps (ctx st) ! j))"
    apply (rule exI [of _ "n1 @ n2"])
    using n1 n2 p1 p2' by auto
  show ?thesis
    unfolding loopFrame_def using 1 2 3 4 5 6 by blast
qed

lemma executeAllFrom_frame:
  "distinct (map step_id (steps (ctx st))) \<Longrightarrow>
     loopFrame i st (snd (executeAllFrom now executors i st))"
proof (induction "length (steps (ctx st)) - i" arbitrary: i st)
  case 0
  then have "\<not> i < length (steps (ctx st))" by simp
  then show ?case by (simp add: executeAllFrom_end loopFrame_refl)
next
  case (Suc n)
  then have i: "i < length (steps (ctx st))" by simp
  show ?case
  proof (cases "status (steps (ctx st) ! i) = Completed")
    case True
    have "loopFrame (Suc i) st (snd (executeAllFrom now executors (Suc i) st))"
      using Suc.hyps(1) [of st "Suc i"] Suc.hyps(2) Suc.prems by simp
    then show ?thesis
      using executeAllFrom_skip [OF i True] by (simp add: loopFrame_weaken)
  next
    case False
    show ?thesis
    proof (cases "lookupExecutor executors (step_id (steps (ctx st) ! i))")
      case None
      then show ?thesis
        using executeAllFrom_noexec [OF i False] by (simp add: loopFrame_refl)
    next
      case (Some e)
      let ?st1 = "snd (executeStep now st (step_id (steps (ctx st) ! i)) e)"
      note A = executeStep_at [OF Suc.prems i, where now = now and e = e]
      have f1: "loopFrame i st ?st1"
        by (rule loopFrame_executeStep [OF Suc.prems i False])
      show ?thesis
      proof (cases "status (steps (ctx ?st1) ! i) = Error")
        case True
        then show ?thesis
          using executeAllFrom_run [OF Suc.prems i False Some, of now] f1 by (simp add: Let_def)
      next
        case ne: False
        have d1: "distinct (map step_id (steps (ctx ?st1)))"
          using executeStep_ids [OF Suc.prems i] Suc.prems by simp
        have "n = length (steps (ctx ?st1)) - Suc i" using Suc.hyps(2) A(2) by simp
        from Suc.hyps(1) [OF this d1]
        have f2: "loopFrame (Suc i) ?st1 (snd (executeAllFrom now executors (Suc i) ?st1))" .
        have "status (steps (ctx ?st1) ! i) \<noteq> Pending" using A(4) by auto
        from loopFrame_trans [OF f1 f2 i this _ False] A(3)
        have "loopFrame i st (snd (executeAllFrom now executors (Suc i) ?st1))" by simp
        then show ?thesis
          using executeAllFrom_run [OF Suc.prems i False Some, of now] ne by (simp add: Let_def)
      qed
    qed
  qed
qed

lemma executeAllFrom_outcome:
  fixes st :: "('r, 'm) SequentialThinking"
  assumes "distinct (map step_id (steps (ctx st)))"
    and "\<forall>j<length (steps (ctx st)). lookupExecutor executors (step_id (steps (ctx st) ! j)) \<noteq> None"
    and "\<forall>j. i \<le> j \<and> j < length (steps (ctx st)) \<longrightarrow> status (steps (ctx st) ! j) \<noteq> Completed"
    and "currentStepIndex (ctx st) = min (int i) (int (length (steps (ctx st))) - 1)"
    and "i \<le> length (steps (ctx st))"
  shows "fst (executeAllFrom now executors i st) = None \<and>
         (ranThrough i st (snd (executeAllFrom now executors i st))
          \<or> (\<exists>k. stoppedAt i k st (snd (executeAllFrom now executors i st))))"
  using assms
proof (induction "length (steps (ctx st)) - i" arbitrary: i st)
  case 0
  then have e: "\<not> i < length (steps (ctx st))" and "i = length (steps (ctx st))" by simp_all
  then show ?case using 0
    by (simp add: executeAllFrom_end ranThrough_def)
next
  case (Suc n)
  let ?N = "length (steps (ctx st))"
  from Suc.hyps(2) have i: "i < ?N" by simp
  have nc: "status (steps (ctx st) ! i) \<noteq> Completed" using Suc.prems(3) i by simp
  from Suc.prems(2) i obtain e where e: "lookupExecutor executors (step_id (steps (ctx st) ! i)) = Some e"
    by auto
  let ?st1 = "snd (executeStep now st (step_id (steps (ctx st) ! i)) e)"
  note d = Suc.prems(1)
  note A = executeStep_at [OF d i, where now = now and e = e]
  note run = executeAllFrom_run [OF d i nc e, of now]
  have ids: "map step_id (steps (ctx ?st1)) = map step_id (steps (ctx st))"
    by (rule executeStep_ids [OF d i])
  have idx: "currentStepIndex (ctx st) = int i" using Suc.prems(4) i by simp
  from A(8) obtain c1 c2 s1 where
    u: "updates ?st1 = updates st @ [(s1, c1), (steps (ctx ?st1) ! i, c2)]"
    and s1: "step_id s1 = step_id (steps (ctx st) ! i)" by blast
  show ?case
  proof (cases "status (steps (ctx ?st1) ! i) = Error")
    case True
    have "stoppedAt i i st ?st1"
      unfolding stoppedAt_def using i True A(3) A(5) A(6) A(10) idx u s1 by auto
    then show ?thesis using run True by (auto simp: Let_def)
  next
    case False
    then have c: "status (steps (ctx ?st1) ! i) = Completed" using A(4) by simp
    then have cr: "result (steps (ctx ?st1) ! i) \<noteq> None" using A(9) by simp
    let ?st' = "snd (executeAllFrom now executors (Suc i) ?st1)"
    have res: "executeAllFrom now executors i st = executeAllFrom now executors (Suc i) ?st1"
      using run False by (simp add: Let_def)
    have p1: "distinct (map step_id (steps (ctx ?st1)))" using ids d by simp
    have idj: "step_id (steps (ctx ?st1) ! j) = step_id (steps (ctx st) ! j)" if "j < ?N" for j
      using A(3) [of j] A(5) by (cases "j = i") simp_all
    have p2: "\<forall>j<length (steps (ctx ?st1)).
        lookupExecutor executors (step_id (steps (ctx ?st1) ! j)) \<noteq> None"
      using Suc.prems(2) A(2) idj by simp
    have p3: "\<forall>j. Suc i \<le> j \<and> j < length (steps (ctx ?st1))
        \<longrightarrow> status (steps (ctx ?st1) ! j) \<noteq> Completed"
      using Suc.prems(3) A(2) A(3) by simp
    have p4: "currentStepIndex (ctx ?st1) = min (int (Suc i)) (int (length (steps (ctx ?st1))) - 1)"
      using A(6) A(2) c idx i by auto
    have p5: "Suc i \<le> length (steps (ctx ?st1))" using i A(2) by simp
    have p0: "n = length (steps (ctx ?st1)) - Suc i" using Suc.hyps(2) A(2) by simp
    from Suc.hyps(1) [OF p0 p1 p2 p3 p4 p5]
    have IH: "fst (executeAllFrom now executors (Suc i) ?st1) = None"
      and IH2: "ranThrough (Suc i) ?st1 ?st' \<or> (\<exists>k. stoppedAt (Suc i) k ?st1 ?st')"
      by simp_all
    have fr: "loopFrame (Suc i) ?st1 ?st'" by (rule executeAllFrom_frame [OF p1])
    have keep_i: "steps (ctx ?st') ! i = steps (ctx ?st1) ! i"
      using loopFrame_keep [OF fr, of i] i A(2) by simp
    from IH2 have "ranThrough i st ?st' \<or> (\<exists>k. stoppedAt i k st ?st')"
    proof
      assume r: "ranThrough (Suc i) ?st1 ?st'"
      have "ranThrough i st ?st'"
        unfolding ranThrough_def
      proof (intro conjI allI impI)
        fix j assume j: "i \<le> j \<and> j < ?N"
        show "status (steps (ctx ?st') ! j) = Completed"
        proof (cases "j = i")
          case True
          then show ?thesis using keep_i c by simp
        next
          case False
          then show ?thesis using r j A(2) unfolding ranThrough_def by simp
        qed
        show "result (steps (ctx ?st') ! j) \<noteq> None"
        proof (cases "j = i")
          case True
          then show ?thesis using keep_i cr by simp
        next
          case False
          then show ?thesis using r j A(2) unfolding ranThrough_def by simp
        qed
      next
        show "currentStepIndex (ctx ?st') = int ?N - 1"
          using r A(2) unfolding ranThrough_def by simp
      qed
      then show ?thesis by simp
    next
      assume "\<exists>k. stoppedAt (Suc i) k ?st1 ?st'"
      then obtain k where k: "stoppedAt (Suc i) k ?st1 ?st'" by blast
      have "stoppedAt i k st ?st'"
        unfolding stoppedAt_def
      proof (intro conjI allI impI ballI)
        show "i \<le> k" using k unfolding stoppedAt_def by simp
        show "k < ?N" using k A(2) unfolding stoppedAt_def by simp
        show "status (steps (ctx ?st') ! k) = Error" using k unfolding stoppedAt_def by simp
        show "currentStepIndex (ctx ?st') = int k" using k unfolding stoppedAt_def by simp
        have "k \<noteq> i" using k unfolding stoppedAt_def by simp
        then show "result (steps (ctx ?st') ! k) = result (steps (ctx st) ! k)"
          using k A(3) unfolding stoppedAt_def by simp
      next
        fix j assume j: "i \<le> j \<and> j < k"
        show "status (steps (ctx ?st') ! j) = Completed"
        proof (cases "j = i")
          case True
          then show ?thesis using keep_i c by simp
        next
          case False
          then show ?thesis using k j unfolding stoppedAt_def by simp
        qed
        show "result (steps (ctx ?st') ! j) \<noteq> None"
        proof (cases "j = i")
          case True
          then show ?thesis using keep_i cr by simp
        next
          case False
          then show ?thesis using k j unfolding stoppedAt_def by simp
        qed
      next
        fix j assume j: "k < j \<and> j < ?N"
        then have "steps (ctx ?st') ! j = steps (ctx ?st1) ! j"
          using k A(2) unfolding stoppedAt_def by simp
        moreover have "j \<noteq> i" using j k unfolding stoppedAt_def by simp
        ultimately show "steps (ctx ?st') ! j = steps (ctx st) ! j" using A(3) by simp
      next
        fix x assume x: "x \<in> set (drop (length (updates st)) (updates ?st'))"
        from fr obtain new where new: "updates ?st' = updates ?st1 @ new"
          unfolding loopFrame_def by blast
        have dr: "drop (length (updates st)) (updates ?st')
                    = [(s1, c1), (steps (ctx ?st1) ! i, c2)] @ drop (length (updates ?st1)) (updates ?st')"
          using new u by simp
        from x dr have "x = (s1, c1) \<or> x = (steps (ctx ?st1) ! i, c2)
              \<or> x \<in> set (drop (length (updates ?st1)) (updates ?st'))" by auto
        then show "\<exists>j. i \<le> j \<and> j \<le> k \<and> step_id (fst x) = step_id (steps (ctx st) ! j)"
        proof (elim disjE)
          assume "x = (s1, c1)"
          then show ?thesis using s1 k unfolding stoppedAt_def by (intro exI [of _ i]) simp
        next
          assume "x = (steps (ctx ?st1) ! i, c2)"
          then show ?thesis using A(5) k unfolding stoppedAt_def by (intro exI [of _ i]) simp
        next
          assume "x \<in> set (drop (length (updates ?st1)) (updates ?st'))"
          with k obtain j where j: "Suc i \<le> j" "j \<le> k"
            "step_id (fst x) = step_id (steps (ctx ?st1) ! j)"
            unfolding stoppedAt_def by blast
          have "k < ?N" using k A(2) unfolding stoppedAt_def by simp
          with j idj [of j] show ?thesis by (intro exI [of _ j]) simp
        qed
      qed
      then show ?thesis by blast
    qed
    with IH res show ?thesis by simp
  qed
qed

lemma executeStep_ids_any:
  "map step_id (steps (ctx (snd (executeStep now st sid e)))) = map step_id (steps (ctx st))"
proof (cases "findIndex (\<lambda>s. step_id s = sid) (steps (ctx st))")
  case None
  then show ?thesis by (simp add: executeStep_notfound)
next
  case (Some p)
  from findIndex_Some [OF Some] have p: "p < length (steps (ctx st))" by simp
  have "(map step_id (steps (ctx st)))[p := step_id (steps (ctx st) ! p)] = map step_id (steps (ctx st))"
    using p by (metis list_update_id nth_map)
  then show ?thesis
    using Some p by (simp add: executeStep_def Let_def map_update split: sum.split)
qed

lemma reachable_distinct:
  "reachable now st \<Longrightarrow> distinct (map step_id (steps (ctx st)))"
proof (induction rule: reachable.induct)
  case (reachable_construct inputs)
  show ?case by (rule construct_distinct)
next
  case (reachable_executeStep st stepId executor)
  then show ?case by (simp add: executeStep_ids_any)
next
  case (reachable_executeAll st executors)
  from executeAllFrom_frame [OF reachable_executeAll.IH, of 0 now executors]
  have "map step_id (steps (ctx (snd (executeAll now executors st)))) = map step_id (steps (ctx st))"
    by (simp add: loopFrame_def executeAll_def)
  with reachable_executeAll.IH show ?case by simp
next
  case (reachable_updateMetadata st key v)
  then show ?case by (simp add: updateMetadata_def)
qed

lemma executeStep_index:
  "currentStepIndex (ctx (snd (executeStep now st sid e))) =
     (if (\<exists>p. findIndex (\<lambda>s. step_id s = sid) (steps (ctx st)) = Some p
              \<and> status (steps (ctx (snd (executeStep now st sid e))) ! p) = Completed)
         \<and> currentStepIndex (ctx st) < int (length (steps (ctx st))) - 1
      then currentStepIndex (ctx st) + 1 else currentStepIndex (ctx st))"
proof (cases "findIndex (\<lambda>s. step_id s = sid) (steps (ctx st))")
  case None
  then show ?thesis by (simp add: executeStep_notfound)
next
  case (Some p)
  from findIndex_Some [OF Some] have p: "p < length (steps (ctx st))" by simp
  show ?thesis
    using Some p by (simp add: executeStep_def Let_def split: sum.split)
qed

lemma executeStep_terminal:
  assumes "findIndex (\<lambda>s. step_id s = sid) (steps (ctx st)) = Some p"
  shows "status (steps (ctx (snd (executeStep now st sid e))) ! p) = Completed
       \<or> status (steps (ctx (snd (executeStep now st sid e))) ! p) = Error"
proof -
  from findIndex_Some [OF assms] have p: "p < length (steps (ctx st))" by simp
  show ?thesis
    using assms p by (simp add: executeStep_def Let_def split: sum.split)
qed

lemma executeStep_others:
  assumes "findIndex (\<lambda>s. step_id s = sid) (steps (ctx st)) = Some p" and "j \<noteq> p"
  shows "steps (ctx (snd (executeStep now st sid e))) ! j = steps (ctx st) ! j"
  using executeStep_found(2) [OF assms(1), where now = now and e = e] assms(2)
  by (metis nth_list_update_neq)

lemma reachable_freshRun: "reachable int freshRun"
  unfolding freshRun_def by (rule reachable_construct)

lemma reachable_afterFailure: "reachable int afterFailure"
  unfolding afterFailure_def by (rule reachable_executeAll [OF reachable_freshRun])




subsection \<open>The claims about the orchestrator\<close>

text \<open>
  Claim C2, as amended. \<open>executeAll\<close> on a freshly constructed orchestrator, with an
  executor bound for every step, throws nothing. If no step ends in error, all \<open>N\<close>
  steps are completed and \<open>currentStepIndex\<close> is \<open>N - 1\<close> when the list is not empty (for
  the empty list it stays 0). If the step at position \<open>k\<close> ends in error, then
  \<open>currentStepIndex\<close> is \<open>k\<close>, the steps before \<open>k\<close> are completed, and every step after
  \<open>k\<close> is pending, is the object the constructor made, and was never shown to the
  observer: it was not executed.
\<close>

theorem executeAll_fresh_ordering:
  fixes inputs :: "'r StepInput list" and st0 st' :: "('r, 'm) SequentialThinking"
  assumes init: "st0 = construct now inputs"
    and bound: "\<forall>s\<in>set (steps (ctx st0)). lookupExecutor executors (step_id s) \<noteq> None"
    and run: "executeAll now executors st0 = (err, st')"
  shows "err = None \<and>
     ((\<forall>j<length inputs. status (steps (ctx st') ! j) \<noteq> Error) \<longrightarrow>
        (\<forall>j<length inputs. status (steps (ctx st') ! j) = Completed) \<and>
        currentStepIndex (ctx st') = (if inputs = [] then 0 else int (length inputs) - 1)) \<and>
     (\<forall>k<length inputs. status (steps (ctx st') ! k) = Error \<longrightarrow>
        currentStepIndex (ctx st') = int k \<and>
        (\<forall>j<k. status (steps (ctx st') ! j) = Completed) \<and>
        (\<forall>j. k < j \<and> j < length inputs \<longrightarrow>
            status (steps (ctx st') ! j) = Pending \<and>
            steps (ctx st') ! j = steps (ctx st0) ! j \<and>
            (\<forall>x\<in>set (updates st'). step_id (fst x) \<noteq> step_id (steps (ctx st') ! j))))"
proof -
  let ?N = "length inputs"
  have len: "length (steps (ctx st0)) = ?N" by (simp add: init construct_def)
  have pend: "status (steps (ctx st0) ! j) = Pending" if "j < ?N" for j
    using that by (simp add: init construct_def mkStep_def)
  have d: "distinct (map step_id (steps (ctx st0)))"
    unfolding init by (rule construct_distinct)
  have u0: "updates st0 = []" by (simp add: init construct_def)
  have i0: "currentStepIndex (ctx st0) = 0" by (simp add: init construct_def)
  have st': "st' = snd (executeAllFrom now executors 0 st0)"
    and err: "err = fst (executeAllFrom now executors 0 st0)"
    using run by (simp_all add: executeAll_def)
  show ?thesis
  proof (cases "inputs = []")
    case True
    then have "executeAllFrom now executors 0 st0 = (None, st0)"
      using len by (simp add: executeAllFrom_end)
    with st' err True i0 show ?thesis by simp
  next
    case False
    then have N: "0 < ?N" by simp
    have h2: "\<forall>j<length (steps (ctx st0)).
        lookupExecutor executors (step_id (steps (ctx st0) ! j)) \<noteq> None"
      using bound by (metis nth_mem)
    have h3: "\<forall>j. 0 \<le> j \<and> j < length (steps (ctx st0))
        \<longrightarrow> status (steps (ctx st0) ! j) \<noteq> Completed"
      using pend len by simp
    have h4: "currentStepIndex (ctx st0) = min (int 0) (int (length (steps (ctx st0))) - 1)"
      using N len i0 by simp
    from executeAllFrom_outcome [OF d h2 h3 h4, of now]
    have e0: "err = None"
      and out: "ranThrough 0 st0 st' \<or> (\<exists>k. stoppedAt 0 k st0 st')"
      using st' err by simp_all
    from out show ?thesis
    proof
      assume r: "ranThrough 0 st0 st'"
      then have "\<forall>j<?N. status (steps (ctx st') ! j) = Completed"
        and "currentStepIndex (ctx st') = int ?N - 1"
        using len by (simp_all add: ranThrough_def)
      with e0 False show ?thesis by simp
    next
      assume "\<exists>k. stoppedAt 0 k st0 st'"
      then obtain k0 where k0: "stoppedAt 0 k0 st0 st'" by blast
      have k0N: "k0 < ?N" using k0 len unfolding stoppedAt_def by simp
      have ek: "status (steps (ctx st') ! k0) = Error" using k0 unfolding stoppedAt_def by simp
      have below: "status (steps (ctx st') ! j) = Completed" if "j < k0" for j
        using k0 that unfolding stoppedAt_def by simp
      have above: "steps (ctx st') ! j = steps (ctx st0) ! j" if "k0 < j" and "j < ?N" for j
        using k0 that len unfolding stoppedAt_def by simp
      have idx: "currentStepIndex (ctx st') = int k0" using k0 unfolding stoppedAt_def by simp
      have upd: "\<exists>j\<le>k0. step_id (fst x) = step_id (steps (ctx st0) ! j)"
        if "x \<in> set (updates st')" for x
      proof -
        have "\<forall>x\<in>set (drop (length (updates st0)) (updates st')).
           \<exists>j. 0 \<le> j \<and> j \<le> k0 \<and> step_id (fst x) = step_id (steps (ctx st0) ! j)"
          using k0 unfolding stoppedAt_def by blast
        with that u0 show ?thesis by auto
      qed
      have only: "k = k0" if "k < ?N" and "status (steps (ctx st') ! k) = Error" for k
      proof (rule ccontr)
        assume "k \<noteq> k0"
        then consider "k < k0" | "k0 < k" by linarith
        then show False
        proof cases
          case 1
          with below [of k] that show False by simp
        next
          case 2
          with above [of k] pend [of k] that show False by simp
        qed
      qed
      have fresh_id: "step_id (fst x) \<noteq> step_id (steps (ctx st') ! j)"
        if "k0 < j" and "j < ?N" and "x \<in> set (updates st')" for j x
      proof -
        from upd [OF that(3)] obtain j' where j': "j' \<le> k0"
          and eq: "step_id (fst x) = step_id (steps (ctx st0) ! j')" by blast
        have "step_id (steps (ctx st0) ! j') \<noteq> step_id (steps (ctx st0) ! j)"
          using d j' that(1,2) k0N len by (simp add: distinct_conv_nth)
        with eq above [OF that(1,2)] show ?thesis by simp
      qed
      have part2: "\<forall>k<?N. status (steps (ctx st') ! k) = Error \<longrightarrow>
        currentStepIndex (ctx st') = int k \<and>
        (\<forall>j<k. status (steps (ctx st') ! j) = Completed) \<and>
        (\<forall>j. k < j \<and> j < ?N \<longrightarrow>
            status (steps (ctx st') ! j) = Pending \<and>
            steps (ctx st') ! j = steps (ctx st0) ! j \<and>
            (\<forall>x\<in>set (updates st'). step_id (fst x) \<noteq> step_id (steps (ctx st') ! j)))"
      proof (intro allI impI)
        fix k assume "k < ?N" and "status (steps (ctx st') ! k) = Error"
        then have "k = k0" by (rule only)
        then show "currentStepIndex (ctx st') = int k \<and>
          (\<forall>j<k. status (steps (ctx st') ! j) = Completed) \<and>
          (\<forall>j. k < j \<and> j < ?N \<longrightarrow>
            status (steps (ctx st') ! j) = Pending \<and>
            steps (ctx st') ! j = steps (ctx st0) ! j \<and>
            (\<forall>x\<in>set (updates st'). step_id (fst x) \<noteq> step_id (steps (ctx st') ! j)))"
          using idx below above pend fresh_id by simp
      qed
      have part1: "\<not> (\<forall>j<?N. status (steps (ctx st') ! j) \<noteq> Error)"
        using k0N ek by blast
      have part1': "(\<forall>j<?N. status (steps (ctx st') ! j) \<noteq> Error) \<longrightarrow>
        (\<forall>j<?N. status (steps (ctx st') ! j) = Completed) \<and>
        currentStepIndex (ctx st') = (if inputs = [] then 0 else int ?N - 1)"
        using part1 by (rule contrapos_np) simp
      show ?thesis
        by (rule conjI [OF e0 conjI [OF part1' part2]])
    qed
  qed
qed

text \<open>
  A run where the second of three steps throws, and a run where none does: the hypotheses
  of the amended claim C2 hold there, and its conclusions give the final index and
  statuses.
\<close>

theorem executeAll_fresh_ordering_witness:
  "list_all (\<lambda>s. lookupExecutor secondFails (step_id s) \<noteq> None) (steps (ctx freshRun)) \<and>
   status (steps (ctx (snd (executeAll int secondFails freshRun))) ! 1) = Error \<and>
   currentStepIndex (ctx (snd (executeAll int secondFails freshRun))) = 1 \<and>
   status (steps (ctx (snd (executeAll int secondFails freshRun))) ! 0) = Completed \<and>
   status (steps (ctx (snd (executeAll int secondFails freshRun))) ! 2) = Pending \<and>
   list_all (\<lambda>s. lookupExecutor allSucceed (step_id s) \<noteq> None) (steps (ctx freshRun)) \<and>
   list_all (\<lambda>s. status s \<noteq> Error) (steps (ctx (snd (executeAll int allSucceed freshRun)))) \<and>
   currentStepIndex (ctx (snd (executeAll int allSucceed freshRun))) = 2"
proof -
  have b1: "\<forall>s\<in>set (steps (ctx freshRun)). lookupExecutor secondFails (step_id s) \<noteq> None"
    by code_simp
  have b2: "\<forall>s\<in>set (steps (ctx freshRun)). lookupExecutor allSucceed (step_id s) \<noteq> None"
    by code_simp
  have len: "length threeSteps = 3" by (simp add: threeSteps_def)
  have e1: "status (steps (ctx (snd (executeAll int secondFails freshRun))) ! 1) = Error"
    by code_simp
  have e2: "\<forall>j<length threeSteps. status (steps (ctx (snd (executeAll int allSucceed freshRun))) ! j) \<noteq> Error"
    unfolding len by code_simp
  note T1 = executeAll_fresh_ordering [OF freshRun_def b1 surjective_pairing]
  note T2 = executeAll_fresh_ordering [OF freshRun_def b2 surjective_pairing]
  have l1: "1 < length threeSteps" by (simp add: len)
  have ne: "threeSteps \<noteq> []" by (simp add: threeSteps_def)
  note S1 = T1 [THEN conjunct2, THEN conjunct2, rule_format, OF l1 e1]
  have r1: "currentStepIndex (ctx (snd (executeAll int secondFails freshRun))) = 1"
    using S1 [THEN conjunct1] by simp
  have r0: "status (steps (ctx (snd (executeAll int secondFails freshRun))) ! 0) = Completed"
    using S1 [THEN conjunct2, THEN conjunct1, rule_format, of 0] by simp
  have r2: "status (steps (ctx (snd (executeAll int secondFails freshRun))) ! 2) = Pending"
    using S1 [THEN conjunct2, THEN conjunct2, rule_format, of 2, THEN conjunct1] len by simp
  have r3: "currentStepIndex (ctx (snd (executeAll int allSucceed freshRun))) = 2"
    using T2 [THEN conjunct2, THEN conjunct1, THEN mp, OF e2, THEN conjunct2] ne len by simp
  have c1: "list_all (\<lambda>s. lookupExecutor secondFails (step_id s) \<noteq> None) (steps (ctx freshRun))"
    using b1 by (simp add: list_all_iff)
  have c2: "list_all (\<lambda>s. lookupExecutor allSucceed (step_id s) \<noteq> None) (steps (ctx freshRun))"
    using b2 by (simp add: list_all_iff)
  have c3: "list_all (\<lambda>s. status s \<noteq> Error) (steps (ctx (snd (executeAll int allSucceed freshRun))))"
    by code_simp
  show ?thesis
    by (rule conjI [OF c1 conjI [OF e1 conjI [OF r1 conjI [OF r0 conjI [OF r2 conjI [OF c2 conjI [OF c3 r3]]]]]]])
qed

text \<open>
  Claim C2 as stated fails for the empty step list: the run ends without an exception and
  no step is in error, yet \<open>currentStepIndex\<close> is 0 while \<open>N - 1\<close> is \<open>-1\<close>.
\<close>

theorem empty_step_list_index:
  "steps (ctx (snd (executeAll int allSucceed noSteps))) = [] \<and>
   fst (executeAll int allSucceed noSteps) = None \<and>
   currentStepIndex (ctx (snd (executeAll int allSucceed noSteps))) = 0 \<and>
   int (length (steps (ctx noSteps))) - 1 = - 1"
  by code_simp

text \<open>
  Claim C6. From a reachable state, one \<open>executeStep\<close> leaves \<open>currentStepIndex\<close> as it
  was or adds exactly one; it changes only when the step named was found and ended
  completed; when that step ended in error the index is unchanged. \<open>executeAll\<close>, a
  sequence of such transitions, never lowers the index, and \<open>updateMetadata\<close> leaves
  it alone.
\<close>

theorem currentStepIndex_forward:
  fixes st st' :: "('r, 'm) SequentialThinking"
  assumes r: "reachable now st"
    and st': "st' = snd (executeStep now st stepId executor)"
  shows "(currentStepIndex (ctx st') = currentStepIndex (ctx st)
            \<or> currentStepIndex (ctx st') = currentStepIndex (ctx st) + 1) \<and>
         (currentStepIndex (ctx st') \<noteq> currentStepIndex (ctx st) \<longrightarrow>
            (\<exists>p. findIndex (\<lambda>s. step_id s = stepId) (steps (ctx st)) = Some p
                 \<and> status (steps (ctx st') ! p) = Completed)) \<and>
         (\<forall>p. findIndex (\<lambda>s. step_id s = stepId) (steps (ctx st)) = Some p
                 \<and> status (steps (ctx st') ! p) = Error
              \<longrightarrow> currentStepIndex (ctx st') = currentStepIndex (ctx st)) \<and>
         currentStepIndex (ctx st) \<le> currentStepIndex (ctx (snd (executeAll now executors st))) \<and>
         currentStepIndex (ctx (updateMetadata st key v)) = currentStepIndex (ctx st)"
proof -
  note I = executeStep_index [of now st stepId executor, folded st']
  have a: "currentStepIndex (ctx st') = currentStepIndex (ctx st)
            \<or> currentStepIndex (ctx st') = currentStepIndex (ctx st) + 1"
    by (subst (1 2) I) simp
  have b: "currentStepIndex (ctx st') \<noteq> currentStepIndex (ctx st) \<longrightarrow>
            (\<exists>p. findIndex (\<lambda>s. step_id s = stepId) (steps (ctx st)) = Some p
                 \<and> status (steps (ctx st') ! p) = Completed)"
    by (subst I) (simp split: if_splits)
  have c: "\<forall>p. findIndex (\<lambda>s. step_id s = stepId) (steps (ctx st)) = Some p
                 \<and> status (steps (ctx st') ! p) = Error
              \<longrightarrow> currentStepIndex (ctx st') = currentStepIndex (ctx st)"
    by (subst I) auto
  have d: "currentStepIndex (ctx st) \<le> currentStepIndex (ctx (snd (executeAll now executors st)))"
    using executeAllFrom_frame [OF reachable_distinct [OF r], of 0 now executors]
    by (simp add: loopFrame_def executeAll_def)
  have e: "currentStepIndex (ctx (updateMetadata st key v)) = currentStepIndex (ctx st)"
    by (simp add: updateMetadata_def)
  show ?thesis
    by (rule conjI [OF a conjI [OF b conjI [OF c conjI [OF d e]]]])
qed

text \<open>
  Claim C6 on the three-step orchestrator: a throwing executor leaves the index, a
  returning one moves it, and then the step is completed.
\<close>

theorem currentStepIndex_forward_witness:
  "reachable int freshRun \<and>
   findIndex (\<lambda>s. step_id s = ascii ''step-1'') (steps (ctx freshRun)) = Some 1 \<and>
   status (steps (ctx (snd (executeStep int freshRun (ascii ''step-1'') failing))) ! 1) = Error \<and>
   currentStepIndex (ctx (snd (executeStep int freshRun (ascii ''step-1'') failing)))
     = currentStepIndex (ctx freshRun) \<and>
   currentStepIndex (ctx (snd (executeStep int freshRun (ascii ''step-0'') succeeding)))
     \<noteq> currentStepIndex (ctx freshRun) \<and>
   (\<exists>p. findIndex (\<lambda>s. step_id s = ascii ''step-0'') (steps (ctx freshRun)) = Some p
        \<and> status (steps (ctx (snd (executeStep int freshRun (ascii ''step-0'') succeeding))) ! p)
            = Completed)"
proof -
  have f: "findIndex (\<lambda>s. step_id s = ascii ''step-1'') (steps (ctx freshRun)) = Some 1"
    by code_simp
  have e: "status (steps (ctx (snd (executeStep int freshRun (ascii ''step-1'') failing))) ! 1) = Error"
    by code_simp
  have n: "currentStepIndex (ctx (snd (executeStep int freshRun (ascii ''step-0'') succeeding)))
     \<noteq> currentStepIndex (ctx freshRun)"
    by code_simp
  note T1 = currentStepIndex_forward [OF reachable_freshRun refl,
      where stepId = "ascii ''step-1''" and executor = failing]
  note T0 = currentStepIndex_forward [OF reachable_freshRun refl,
      where stepId = "ascii ''step-0''" and executor = succeeding]
  have a: "currentStepIndex (ctx (snd (executeStep int freshRun (ascii ''step-1'') failing)))
     = currentStepIndex (ctx freshRun)"
    using T1 [THEN conjunct2, THEN conjunct2, THEN conjunct1, rule_format, of 1] f e by simp
  have b: "\<exists>p. findIndex (\<lambda>s. step_id s = ascii ''step-0'') (steps (ctx freshRun)) = Some p
        \<and> status (steps (ctx (snd (executeStep int freshRun (ascii ''step-0'') succeeding))) ! p)
            = Completed"
    using T0 [THEN conjunct2, THEN conjunct1, THEN mp, OF n] .
  show ?thesis
    by (rule conjI [OF reachable_freshRun conjI [OF f conjI [OF e conjI [OF a conjI [OF n b]]]]])
qed

text \<open>
  Claim C7, as amended. Every step of a freshly constructed orchestrator is pending.
  From a reachable state, executing the step at position \<open>j\<close> shows it to the observer
  as processing and leaves it completed or in error; executing another step leaves it
  untouched, and so does \<open>updateMetadata\<close>; a step that is pending after
  \<open>executeStep\<close> was pending before, and one that is pending after \<open>executeAll\<close> is
  untouched: no step reverts to pending. A step in error is thus changed only by being
  executed again.
\<close>

theorem step_lifecycle:
  fixes st :: "('r, 'm) SequentialThinking" and fresh :: "('r, 'm) SequentialThinking"
  assumes r: "reachable now st"
    and j: "j < length (steps (ctx st))"
    and fresh: "fresh = construct now inputs"
  shows "(\<forall>s\<in>set (steps (ctx fresh)). status s = Pending) \<and>
         (stepId = step_id (steps (ctx st) ! j) \<longrightarrow>
            (\<exists>s1 c1 c2. updates (snd (executeStep now st stepId executor))
                  = updates st @ [(s1, c1), (steps (ctx (snd (executeStep now st stepId executor))) ! j, c2)]
               \<and> step_id s1 = stepId \<and> status s1 = Processing) \<and>
            (status (steps (ctx (snd (executeStep now st stepId executor))) ! j) = Completed
               \<or> status (steps (ctx (snd (executeStep now st stepId executor))) ! j) = Error)) \<and>
         (stepId \<noteq> step_id (steps (ctx st) ! j) \<longrightarrow>
            steps (ctx (snd (executeStep now st stepId executor))) ! j = steps (ctx st) ! j) \<and>
         (status (steps (ctx (snd (executeStep now st stepId executor))) ! j) = Pending \<longrightarrow>
            status (steps (ctx st) ! j) = Pending) \<and>
         (status (steps (ctx (snd (executeAll now executors st))) ! j) = Pending \<longrightarrow>
            steps (ctx (snd (executeAll now executors st))) ! j = steps (ctx st) ! j) \<and>
         steps (ctx (updateMetadata st key v)) = steps (ctx st)"
proof -
  note d = reachable_distinct [OF r]
  let ?st' = "snd (executeStep now st stepId executor)"
  have a: "\<forall>s\<in>set (steps (ctx fresh)). status s = Pending"
    by (auto simp: fresh construct_def mkStep_def)
  have b: "stepId = step_id (steps (ctx st) ! j) \<longrightarrow>
            (\<exists>s1 c1 c2. updates ?st' = updates st @ [(s1, c1), (steps (ctx ?st') ! j, c2)]
               \<and> step_id s1 = stepId \<and> status s1 = Processing) \<and>
            (status (steps (ctx ?st') ! j) = Completed \<or> status (steps (ctx ?st') ! j) = Error)"
  proof
    assume e: "stepId = step_id (steps (ctx st) ! j)"
    note A = executeStep_at [OF d j, where now = now and e = executor, folded e]
    from A(8) A(4) show "(\<exists>s1 c1 c2. updates ?st' = updates st @ [(s1, c1), (steps (ctx ?st') ! j, c2)]
               \<and> step_id s1 = stepId \<and> status s1 = Processing) \<and>
            (status (steps (ctx ?st') ! j) = Completed \<or> status (steps (ctx ?st') ! j) = Error)"
      by blast
  qed
  have other: "steps (ctx ?st') ! j = steps (ctx st) ! j" if ne: "stepId \<noteq> step_id (steps (ctx st) ! j)"
  proof (cases "findIndex (\<lambda>s. step_id s = stepId) (steps (ctx st))")
    case None
    then show ?thesis by (simp add: executeStep_notfound)
  next
    case (Some p)
    from findIndex_Some [OF Some] ne have "j \<noteq> p" by auto
    then show ?thesis by (rule executeStep_others [OF Some])
  qed
  then have c: "stepId \<noteq> step_id (steps (ctx st) ! j) \<longrightarrow> steps (ctx ?st') ! j = steps (ctx st) ! j"
    by simp
  have dd: "status (steps (ctx ?st') ! j) = Pending \<longrightarrow> status (steps (ctx st) ! j) = Pending"
  proof (cases "stepId = step_id (steps (ctx st) ! j)")
    case True
    with b show ?thesis by auto
  next
    case False
    with other show ?thesis by simp
  qed
  have e: "status (steps (ctx (snd (executeAll now executors st))) ! j) = Pending \<longrightarrow>
            steps (ctx (snd (executeAll now executors st))) ! j = steps (ctx st) ! j"
    using loopFrame_pending [OF executeAllFrom_frame [OF d, of 0 now executors] j]
    by (simp add: executeAll_def)
  have f: "steps (ctx (updateMetadata st key v)) = steps (ctx st)"
    by (simp add: updateMetadata_def)
  show ?thesis
    by (rule conjI [OF a conjI [OF b conjI [OF c conjI [OF dd conjI [OF e f]]]]])
qed

text \<open>
  Claim C7, as amended, on the state left by the failed run, for the step in error:
  executing another step leaves it as it was, executing it again ends in a terminal
  status.
\<close>

theorem step_lifecycle_witness:
  "reachable int afterFailure \<and> 1 < length (steps (ctx afterFailure)) \<and>
   status (steps (ctx afterFailure) ! 1) = Error \<and>
   ascii ''step-0'' \<noteq> step_id (steps (ctx afterFailure) ! 1) \<and>
   steps (ctx (snd (executeStep int afterFailure (ascii ''step-0'') succeeding))) ! 1
     = steps (ctx afterFailure) ! 1 \<and>
   ascii ''step-1'' = step_id (steps (ctx afterFailure) ! 1) \<and>
   (status (steps (ctx (snd (executeStep int afterFailure (ascii ''step-1'') succeeding))) ! 1) = Completed
      \<or> status (steps (ctx (snd (executeStep int afterFailure (ascii ''step-1'') succeeding))) ! 1) = Error) \<and>
   list_all (\<lambda>s. status s = Pending) (steps (ctx freshRun))"
proof -
  have j: "1 < length (steps (ctx afterFailure))" by code_simp
  have e: "status (steps (ctx afterFailure) ! 1) = Error" by code_simp
  have n0: "ascii ''step-0'' \<noteq> step_id (steps (ctx afterFailure) ! 1)" by code_simp
  have n1: "ascii ''step-1'' = step_id (steps (ctx afterFailure) ! 1)" by code_simp
  note T0 = step_lifecycle [OF reachable_afterFailure j freshRun_def,
      where stepId = "ascii ''step-0''" and executor = succeeding]
  note T1 = step_lifecycle [OF reachable_afterFailure j freshRun_def,
      where stepId = "ascii ''step-1''" and executor = succeeding]
  have a: "steps (ctx (snd (executeStep int afterFailure (ascii ''step-0'') succeeding))) ! 1
     = steps (ctx afterFailure) ! 1"
    using T0 [THEN conjunct2, THEN conjunct2, THEN conjunct1, THEN mp, OF n0] .
  have b: "status (steps (ctx (snd (executeStep int afterFailure (ascii ''step-1'') succeeding))) ! 1) = Completed
      \<or> status (steps (ctx (snd (executeStep int afterFailure (ascii ''step-1'') succeeding))) ! 1) = Error"
    using T1 [THEN conjunct2, THEN conjunct1, THEN mp, OF n1, THEN conjunct2] .
  have c: "list_all (\<lambda>s. status s = Pending) (steps (ctx freshRun))"
    using T0 [THEN conjunct1] by (simp add: list_all_iff)
  show ?thesis
    by (rule conjI [OF reachable_afterFailure conjI [OF j conjI [OF e conjI [OF n0 conjI [OF a
          conjI [OF n1 conjI [OF b c]]]]]]])
qed

text \<open>
  Claim C7 as stated fails: after a run in which the second step ended in error, a second
  \<open>executeAll\<close> executes that step again, and its status, result and timestamp
  change.
\<close>

theorem error_step_reexecuted:
  "status (steps (ctx afterFailure) ! 1) = Error \<and>
   status (steps (ctx (snd (executeAll int allSucceed afterFailure))) ! 1) = Completed \<and>
   result (steps (ctx (snd (executeAll int allSucceed afterFailure))) ! 1)
     \<noteq> result (steps (ctx afterFailure) ! 1) \<and>
   timestamp (steps (ctx (snd (executeAll int allSucceed afterFailure))) ! 1)
     \<noteq> timestamp (steps (ctx afterFailure) ! 1)"
  by code_simp



text \<open>
  Claim C10. For an id that no step has, \<open>getStepResult\<close> gives \<open>undefined\<close> and
  \<open>executeStep\<close> throws \<open>StepNotFound\<close>, leaving the orchestrator as it was.
  \<open>getStepResult\<close> only reads: it is a function from the state to a value.
\<close>

theorem unknown_step_id:
  fixes st :: "('r, 'm) SequentialThinking"
  assumes "\<forall>s\<in>set (steps (ctx st)). step_id s \<noteq> stepId"
  shows "getStepResult st stepId = None \<and>
         executeStep now st stepId executor = (Some (StepNotFound stepId), st)"
proof -
  have n: "findIndex (\<lambda>s. step_id s = stepId) (steps (ctx st)) = None"
    using assms by (simp add: findIndex_None)
  then have "find (\<lambda>s. step_id s = stepId) (steps (ctx st)) = None"
    by (simp add: find_findIndex)
  then have "getStepResult st stepId = None" by (simp add: getStepResult_def)
  with executeStep_notfound [OF n] show ?thesis by simp
qed

text \<open>
  Claim C10 on the three-step orchestrator and the id \<open>step-9\<close>.
\<close>

theorem unknown_step_id_witness:
  "list_all (\<lambda>s. step_id s \<noteq> ascii ''step-9'') (steps (ctx freshRun)) \<and>
   getStepResult freshRun (ascii ''step-9'') = None \<and>
   executeStep int freshRun (ascii ''step-9'') succeeding
     = (Some (StepNotFound (ascii ''step-9'')), freshRun)"
proof -
  have h: "\<forall>s\<in>set (steps (ctx freshRun)). step_id s \<noteq> ascii ''step-9''" by code_simp
  have h': "list_all (\<lambda>s. step_id s \<noteq> ascii ''step-9'') (steps (ctx freshRun))"
    using h by (simp add: list_all_iff)
  from unknown_step_id [OF h, of int succeeding] h' show ?thesis by blast
qed

section \<open>The resume analyzer: language detection\<close>

subsection \<open>Double-precision division\<close>

text \<open>
  \<open>detectLanguage\<close> divides two string lengths and compares the quotient with the
  literal \<open>0.1\<close>, both IEEE 754 double-precision numbers. Lengths are integers below
  \<open>2^53\<close>, which doubles represent exactly; the quotient is the exact quotient rounded
  to the nearest double, ties to even. \<open>doubleQuotient c n\<close> is that double, as a
  rational number, for \<open>0 < c \<le> n\<close>: with \<open>k = binadeShift c n\<close> the least shift such
  that \<open>n \<le> c * 2^k\<close>, the exact quotient lies in the binade \<open>[2^-k, 2^(1-k))\<close>, whose
  doubles are the multiples of \<open>2^-(52+k)\<close>. The literal \<open>0.1\<close> is the double nearest to
  one tenth, \<open>tenth\<close>.
\<close>

function binadeShift :: "nat \<Rightarrow> nat \<Rightarrow> nat" where
  "binadeShift c n = (if c = 0 \<or> n \<le> c then 0 else Suc (binadeShift (2 * c) n))"
  by pat_completeness auto
termination
  by (relation "measure (\<lambda>(c, n). n - c)") auto

declare binadeShift.simps [simp del]

definition roundHalfEven :: "nat \<Rightarrow> nat \<Rightarrow> nat" where
  "roundHalfEven a b =
     (let f = a div b; r = a mod b
      in if 2 * r < b then f else if b < 2 * r then f + 1 else if even f then f else f + 1)"

definition doubleQuotient :: "nat \<Rightarrow> nat \<Rightarrow> rat" where
  "doubleQuotient c n =
     (let k = binadeShift c n
      in of_nat (roundHalfEven (c * 2 ^ (52 + k)) n) / 2 ^ (52 + k))"

definition tenth :: rat where
  "tenth = doubleQuotient 1 10"

subsection \<open>\<open>detectLanguage\<close>\<close>

text \<open>
  The result is \<open>'en'\<close> or \<open>'zh'\<close>. The pattern of the source matches the code units
  from U+4E00 to U+9FFF, the CJK Unified Ideographs block; \<open>match\<close> gives \<open>null\<close> when
  there is none, and then the ratio is 0.
  The ratio of Latin letters is computed for the log line only.
\<close>

datatype Language = En | Zh

definition isChineseChar :: "nat \<Rightarrow> bool" where
  "isChineseChar c \<longleftrightarrow> 0x4E00 \<le> c \<and> c \<le> 0x9FFF"

definition detectLanguage :: "jsstring \<Rightarrow> Language" where
  "detectLanguage text =
     (let chineseChars = filter isChineseChar text;
          chineseRatio = (if chineseChars \<noteq> [] then
                            doubleQuotient (length chineseChars) (length text)
                          else 0)
      in if tenth < chineseRatio then Zh else En)"


text \<open>Two inputs: two ideographs out of three code units, and one out of ten.\<close>

definition mostlyChinese :: jsstring where
  "mostlyChinese = [0x4E2D, 0x6587, 0x41]"

definition oneInTen :: jsstring where
  "oneInTen = 0x4E2D # ascii ''resume123''"

subsection \<open>Facts about the rounding\<close>

lemma binadeShift_1_10: "binadeShift 1 10 = 4"
  by code_simp

lemma tenth_value: "tenth = 7205759403792794 / 2 ^ 56"
  unfolding tenth_def doubleQuotient_def binadeShift_1_10 Let_def roundHalfEven_def
  by simp

lemma binadeShift_spec:
  "0 < c \<Longrightarrow> n \<le> c * 2 ^ binadeShift c n \<and> (binadeShift c n \<noteq> 0 \<longrightarrow> c * 2 ^ binadeShift c n < 2 * n)"
proof (induction c n rule: binadeShift.induct)
  case (1 c n)
  show ?case
  proof (cases "n \<le> c")
    case True
    then have "binadeShift c n = 0" by (subst binadeShift.simps) simp
    with True show ?thesis by simp
  next
    case False
    with "1.prems" have k: "binadeShift c n = Suc (binadeShift (2 * c) n)"
      by (subst binadeShift.simps) simp
    have pos: "0 < 2 * c" using "1.prems" by simp
    from "1.IH" [OF _ pos] "1.prems" False
    have IH: "n \<le> 2 * c * 2 ^ binadeShift (2 * c) n"
      and IH2: "binadeShift (2 * c) n \<noteq> 0 \<longrightarrow> 2 * c * 2 ^ binadeShift (2 * c) n < 2 * n"
      by simp_all
    show ?thesis
    proof (cases "binadeShift (2 * c) n = 0")
      case True
      with IH False k show ?thesis by simp
    next
      case nz: False
      with IH IH2 k show ?thesis by (simp add: mult.assoc)
    qed
  qed
qed

lemma roundHalfEven_bounds:
  "0 < b \<Longrightarrow> a div b \<le> roundHalfEven a b \<and> roundHalfEven a b \<le> a div b + 1"
  by (simp add: roundHalfEven_def Let_def)

lemma roundHalfEven_ge:
  assumes "0 < b" and "m * b \<le> a"
  shows "m \<le> roundHalfEven a b"
proof -
  have "m \<le> a div b" using assms by (simp add: less_eq_div_iff_mult_less_eq)
  with roundHalfEven_bounds [OF assms(1), of a] show ?thesis by linarith
qed

lemma roundHalfEven_le:
  assumes "0 < b" and "a < m * b"
  shows "roundHalfEven a b \<le> m"
proof -
  have "a div b < m" using assms by (simp add: div_less_iff_less_mult)
  with roundHalfEven_bounds [OF assms(1), of a] show ?thesis by linarith
qed

lemma roundHalfEven_above_half:
  assumes b: "0 < b" and h: "(2 * m + 1) * b < 2 * a"
  shows "m + 1 \<le> roundHalfEven a b"
proof -
  have a: "a = (a div b) * b + a mod b" by simp
  have mb: "m * b \<le> a" using h by (simp add: algebra_simps)
  then have f: "m \<le> a div b" using b by (simp add: less_eq_div_iff_mult_less_eq)
  show ?thesis
  proof (cases "m + 1 \<le> a div b")
    case True
    with roundHalfEven_bounds [OF b, of a] show ?thesis by linarith
  next
    case False
    with f have e: "a div b = m" by simp
    with a have "a = m * b + a mod b" by simp
    with h have "b < 2 * (a mod b)" by (simp add: algebra_simps)
    then show ?thesis using e by (simp add: roundHalfEven_def Let_def)
  qed
qed

lemma tenth_less_iff:
  "tenth < of_nat M / 2 ^ (52 + k) \<longleftrightarrow> 7205759403792794 * 2 ^ (52 + k) < M * 2 ^ 56"
proof -
  have "tenth < of_nat M / 2 ^ (52 + k)
      \<longleftrightarrow> (7205759403792794 :: rat) * 2 ^ (52 + k) < of_nat M * 2 ^ 56"
    unfolding tenth_value by (simp add: field_simps)
  also have "\<dots> \<longleftrightarrow> (of_nat (7205759403792794 * 2 ^ (52 + k)) :: rat) < of_nat (M * 2 ^ 56)"
    by simp
  also have "\<dots> \<longleftrightarrow> 7205759403792794 * 2 ^ (52 + k) < M * 2 ^ 56"
    by (simp only: of_nat_less_iff)
  finally show ?thesis .
qed

lemma doubleQuotient_above_tenth:
  assumes c: "0 < c" and cn: "c \<le> n" and n: "n \<le> 2 ^ 52" and gt: "n < 10 * c"
  shows "tenth < doubleQuotient c n"
proof -
  define k where "k = binadeShift c n"
  define M where "M = roundHalfEven (c * 2 ^ (52 + k)) n"
  have q: "doubleQuotient c n = of_nat M / 2 ^ (52 + k)"
    by (simp add: doubleQuotient_def Let_def k_def M_def)
  from binadeShift_spec [OF c, of n]
  have lo: "n \<le> c * 2 ^ k" and hi: "k \<noteq> 0 \<longrightarrow> c * 2 ^ k < 2 * n"
    by (simp_all add: k_def)
  have npos: "0 < n" using c cn by simp
  have k4: "k \<le> 4"
  proof (rule ccontr)
    assume "\<not> k \<le> 4"
    then have k5: "5 \<le> k" by simp
    then have "(2::nat) ^ 5 \<le> 2 ^ k" by (intro power_increasing) simp_all
    then have "c * 2 ^ 5 \<le> c * 2 ^ k" by (rule mult_le_mono2)
    moreover have "(2::nat) ^ 5 = 32" by simp
    ultimately have a: "c * 32 \<le> c * 2 ^ k" by (simp only:)
    have b: "c * 2 ^ k < 2 * n" using hi k5 by simp
    from a b gt show False by linarith
  qed
  show ?thesis
  proof (cases "k = 4")
    case True
    have "(2 * 7205759403792794 + 1) * n < 2 * (c * 2 ^ 56)"
      using gt n by simp
    from roundHalfEven_above_half [OF npos this]
    have "7205759403792794 + 1 \<le> M" by (simp add: M_def True)
    then have "7205759403792794 * 2 ^ (52 + k) < M * 2 ^ 56" by (simp add: True)
    then show ?thesis by (simp add: q tenth_less_iff)
  next
    case False
    with k4 have k3: "k \<le> 3" by simp
    have "2 ^ 52 * n \<le> c * 2 ^ (52 + k)"
      using lo by (simp add: power_add)
    from roundHalfEven_ge [OF npos this] have M: "2 ^ 52 \<le> M" by (simp add: M_def)
    have "(2::nat) ^ (52 + k) \<le> 2 ^ 55" using k3 by (intro power_increasing) simp_all
    then have "7205759403792794 * (2::nat) ^ (52 + k) \<le> 7205759403792794 * 2 ^ 55" by simp
    also have "\<dots> < 2 ^ 52 * 2 ^ 56" by simp
    also have "\<dots> \<le> M * 2 ^ 56" using M by simp
    finally show ?thesis by (simp add: q tenth_less_iff)
  qed
qed


lemma doubleQuotient_not_above_tenth:
  assumes c: "0 < c" and cn: "c \<le> n" and le: "10 * c \<le> n"
  shows "\<not> tenth < doubleQuotient c n"
proof -
  define k where "k = binadeShift c n"
  define M where "M = roundHalfEven (c * 2 ^ (52 + k)) n"
  have q: "doubleQuotient c n = of_nat M / 2 ^ (52 + k)"
    by (simp add: doubleQuotient_def Let_def k_def M_def)
  from binadeShift_spec [OF c, of n]
  have lo: "n \<le> c * 2 ^ k" and hi: "k \<noteq> 0 \<longrightarrow> c * 2 ^ k < 2 * n"
    by (simp_all add: k_def)
  have npos: "0 < n" using c cn by simp
  have k4: "4 \<le> k"
  proof (rule ccontr)
    assume "\<not> 4 \<le> k"
    then have "k \<le> 3" by simp
    then have "(2::nat) ^ k \<le> 2 ^ 3" by (intro power_increasing) simp_all
    then have "c * 2 ^ k \<le> c * 2 ^ 3" by (rule mult_le_mono2)
    moreover have "(2::nat) ^ 3 = 8" by simp
    ultimately have a: "c * 2 ^ k \<le> c * 8" by (simp only:)
    from a lo le c show False by linarith
  qed
  have "\<not> 7205759403792794 * 2 ^ (52 + k) < M * 2 ^ 56"
  proof (cases "k = 4")
    case True
    have "c * 2 ^ 56 < 7205759403792794 * n"
      using le npos by simp
    from roundHalfEven_le [OF npos this] have "M \<le> 7205759403792794" by (simp add: M_def True)
    then show ?thesis by (simp add: True)
  next
    case False
    with k4 have k5: "5 \<le> k" by simp
    then have "c * 2 ^ k < 2 * n" using hi by simp
    then have "c * 2 ^ k * 2 ^ 52 < 2 * n * 2 ^ 52" by simp
    then have "c * 2 ^ (52 + k) < (2 ^ 53 + 1) * n" by (simp add: power_add mult.commute mult.left_commute)
    from roundHalfEven_le [OF npos this] have M: "M \<le> 2 ^ 53 + 1" by (simp add: M_def)
    have "M * 2 ^ 56 \<le> (2 ^ 53 + 1) * 2 ^ 56" using M by simp
    also have "\<dots> \<le> 7205759403792794 * (2::nat) ^ 57" by simp
    also have "\<dots> \<le> 7205759403792794 * 2 ^ (52 + k)"
    proof -
      have "(2::nat) ^ 57 \<le> 2 ^ (52 + k)" using k5 by (intro power_increasing) simp_all
      then show ?thesis by (rule mult_le_mono2)
    qed
    finally show ?thesis by simp
  qed
  then show ?thesis by (simp add: q tenth_less_iff)
qed

lemma ratio_above_tenth:
  fixes c n :: nat
  assumes "0 < n"
  shows "(1 / 10 :: rat) < of_nat c / of_nat n \<longleftrightarrow> n < 10 * c"
proof -
  have "(1 / 10 :: rat) < of_nat c / of_nat n \<longleftrightarrow> (of_nat n :: rat) < of_nat (10 * c)"
    using assms by (simp add: field_simps)
  also have "\<dots> \<longleftrightarrow> n < 10 * c" by (simp only: of_nat_less_iff)
  finally show ?thesis .
qed

subsection \<open>The claim about language detection\<close>

text \<open>
  Claim C5. For every string of at most \<open>2^52\<close> code units (no JavaScript engine holds
  a longer one), \<open>detectLanguage\<close> gives \<open>'zh'\<close> exactly when the number of CJK
  ideographs divided by the length exceeds one tenth, and \<open>'en'\<close> exactly when the
  quotient is one tenth or less: the rounding of the double-precision division and of
  the literal \<open>0.1\<close> never changes the comparison. The result is a function of the
  string alone.
\<close>

theorem detectLanguage_threshold:
  assumes len: "length text \<le> 2 ^ 52"
  shows "(detectLanguage text = Zh \<longleftrightarrow>
            (1 / 10 :: rat) < of_nat (length (filter isChineseChar text)) / of_nat (length text)) \<and>
         (detectLanguage text = En \<longleftrightarrow>
            of_nat (length (filter isChineseChar text)) / of_nat (length text) \<le> (1 / 10 :: rat))"
proof -
  define c where "c = length (filter isChineseChar text)"
  define n where "n = length text"
  have cn: "c \<le> n" by (simp add: c_def n_def)
  have zh: "detectLanguage text = Zh \<longleftrightarrow> (1 / 10 :: rat) < of_nat c / of_nat n"
  proof (cases "c = 0")
    case True
    then have "filter isChineseChar text = []" by (simp add: c_def)
    then have "detectLanguage text = En"
      by (simp add: detectLanguage_def tenth_value)
    with True show ?thesis by simp
  next
    case False
    then have c: "0 < c" and ne: "filter isChineseChar text \<noteq> []" by (auto simp: c_def)
    then have npos: "0 < n" using cn by simp
    have d: "detectLanguage text = Zh \<longleftrightarrow> tenth < doubleQuotient c n"
      using ne by (simp add: detectLanguage_def c_def n_def)
    have "tenth < doubleQuotient c n \<longleftrightarrow> n < 10 * c"
    proof (cases "n < 10 * c")
      case True
      with doubleQuotient_above_tenth [OF c cn _ True] len show ?thesis by (simp add: n_def)
    next
      case False
      then have "10 * c \<le> n" by simp
      with doubleQuotient_not_above_tenth [OF c cn this] False show ?thesis by simp
    qed
    with d ratio_above_tenth [OF npos, of c] show ?thesis by simp
  qed
  have "detectLanguage text = En \<longleftrightarrow> detectLanguage text \<noteq> Zh"
    by (cases "detectLanguage text") simp_all
  with zh have en: "detectLanguage text = En \<longleftrightarrow> of_nat c / of_nat n \<le> (1 / 10 :: rat)"
    by (simp add: not_less)
  from zh en show ?thesis by (simp add: c_def n_def)
qed

text \<open>
  Claim C5 on two strings: above the boundary, and exactly on it.
\<close>

theorem detectLanguage_threshold_witness:
  "length mostlyChinese \<le> 2 ^ 52 \<and> detectLanguage mostlyChinese = Zh \<and>
   length oneInTen \<le> 2 ^ 52 \<and> 10 * length (filter isChineseChar oneInTen) = length oneInTen \<and>
   detectLanguage oneInTen = En"
proof -
  have l1: "length mostlyChinese \<le> 2 ^ 52" by (simp add: mostlyChinese_def)
  have l2: "length oneInTen \<le> 2 ^ 52" by (simp add: oneInTen_def ascii_def)
  have r1: "(1 / 10 :: rat) < of_nat (length (filter isChineseChar mostlyChinese)) / of_nat (length mostlyChinese)"
    by (simp add: mostlyChinese_def isChineseChar_def)
  have b: "10 * length (filter isChineseChar oneInTen) = length oneInTen"
    by (simp add: oneInTen_def ascii_def isChineseChar_def)
  have r2: "of_nat (length (filter isChineseChar oneInTen)) / of_nat (length oneInTen) \<le> (1 / 10 :: rat)"
    by (simp add: oneInTen_def ascii_def isChineseChar_def)
  have z: "detectLanguage mostlyChinese = Zh"
    using detectLanguage_threshold [OF l1, THEN conjunct1] r1 by simp
  have e: "detectLanguage oneInTen = En"
    using detectLanguage_threshold [OF l2, THEN conjunct2] r2 by simp
  from l1 z l2 b e show ?thesis by simp
qed

section \<open>The resume analyzer: running the six stages\<close>

















subsection \<open>Facts about a run of the analyzer\<close>


























subsection \<open>The claim about the assembly of the result\<close>




section \<open>The resume analyzer: the parsed resume and the derived metrics\<close>

subsection \<open>String operations of the JavaScript runtime\<close>

text \<open>
  \<open>includes\<close>: whether \<open>k\<close> occurs in \<open>t\<close> as a contiguous run of code units.
  \<open>join\<close> with a separator, \<open>split\<close> at a one-unit separator. \<open>toLowerCase\<close> depends on
  the Unicode tables of the runtime and is a parameter \<open>lc\<close> of the functions that call
  it; \<open>asciiLower\<close>, which maps \<open>A..Z\<close> to \<open>a..z\<close> and nothing else, is the instance used
  on concrete inputs.
\<close>

fun startsWith :: "jsstring \<Rightarrow> jsstring \<Rightarrow> bool" where
  "startsWith t [] = True"
| "startsWith [] (k # ks) = False"
| "startsWith (c # cs) (k # ks) = (c = k \<and> startsWith cs ks)"

fun includesStr :: "jsstring \<Rightarrow> jsstring \<Rightarrow> bool" where
  "includesStr [] k = (k = [])"
| "includesStr (c # cs) k = (startsWith (c # cs) k \<or> includesStr cs k)"

fun joinWith :: "jsstring \<Rightarrow> jsstring list \<Rightarrow> jsstring" where
  "joinWith sep [] = []"
| "joinWith sep [x] = x"
| "joinWith sep (x # y # ys) = x @ sep @ joinWith sep (y # ys)"

fun splitAt :: "nat \<Rightarrow> jsstring \<Rightarrow> jsstring list" where
  "splitAt sep [] = [[]]"
| "splitAt sep (c # cs) =
     (if c = sep then [] # splitAt sep cs
      else (case splitAt sep cs of [] \<Rightarrow> [[c]] | p # ps \<Rightarrow> (c # p) # ps))"

definition asciiLower :: "jsstring \<Rightarrow> jsstring" where
  "asciiLower s = map (\<lambda>c. if 0x41 \<le> c \<and> c \<le> 0x5A then c + 0x20 else c) s"

subsection \<open>The parsed resume\<close>

text \<open>
  The interfaces of the source. An optional property is an \<open>option\<close>. Field names that
  several interfaces share carry the interface's prefix (\<open>exp_description\<close> is
  \<open>WorkExperience.description\<close>, \<open>proj_name\<close> is \<open>Project.name\<close>, and so on).
\<close>

record PersonalInfo =
  name :: jsstring
  email :: "jsstring option"
  phone :: "jsstring option"
  location :: "jsstring option"
  linkedin :: "jsstring option"
  github :: "jsstring option"
  website :: "jsstring option"

record Education =
  institution :: jsstring
  degree :: jsstring
  major :: "jsstring option"
  graduationYear :: "int option"
  gpa :: "rat option"

record WorkExperience =
  company :: jsstring
  position :: jsstring
  startDate :: jsstring
  endDate :: jsstring
  exp_description :: "jsstring list"
  achievements :: "jsstring list"

record Project =
  proj_name :: jsstring
  proj_description :: jsstring
  technologies :: "jsstring list"
  url :: "jsstring option"
  proj_achievements :: "jsstring list"

datatype Proficiency = Beginner | Intermediate | Advanced | Expert

record Skill =
  category :: jsstring
  items :: "jsstring list"
  proficiency :: Proficiency

record ParsedResume =
  personalInfo :: PersonalInfo
  education :: "Education list"
  workExperience :: "WorkExperience list"
  projects :: "Project list"
  skills :: "Skill list"
  certifications :: "jsstring list"
  languages :: "jsstring list"
  resume_language :: Language

subsection \<open>\<open>countKeywords\<close> and \<open>determineAITag\<close>\<close>

























definition emptyResume :: ParsedResume where
  "emptyResume =
     \<lparr> personalInfo = \<lparr> name = [], email = None, phone = None, location = None,
                          linkedin = None, github = None, website = None \<rparr>,
       education = [], workExperience = [], projects = [], skills = [],
       certifications = [], languages = [], resume_language = En \<rparr>"




subsection \<open>Facts used for the tag decision\<close>













subsection \<open>The claim about the AI tag\<close>



subsection \<open>\<open>parseInt\<close>\<close>

text \<open>
  \<open>parseInt(s)\<close> without a radix: leading white space is skipped, a sign is read, a
  prefix \<open>0x\<close> or \<open>0X\<close> selects radix 16, and the longest run of digits is the value;
  without a digit the result is \<open>NaN\<close> (\<open>None\<close>). \<open>orElse v d\<close> is \<open>v || d\<close> for a
  number \<open>v\<close>: \<open>NaN\<close> and 0 are falsy.
\<close>

definition isWhiteSpace :: "nat \<Rightarrow> bool" where
  "isWhiteSpace c \<longleftrightarrow>
     c \<in> {0x09, 0x0A, 0x0B, 0x0C, 0x0D, 0x20, 0xA0, 0x1680, 0x2028, 0x2029, 0x202F, 0x205F,
          0x3000, 0xFEFF} \<or> (0x2000 \<le> c \<and> c \<le> 0x200A)"

definition digitValue :: "nat \<Rightarrow> nat \<Rightarrow> nat option" where
  "digitValue radix c =
     (let v = (if 0x30 \<le> c \<and> c \<le> 0x39 then c - 0x30
               else if 0x61 \<le> c \<and> c \<le> 0x7A then c - 0x61 + 10
               else if 0x41 \<le> c \<and> c \<le> 0x5A then c - 0x41 + 10
               else radix)
      in if v < radix then Some v else None)"

fun leadingDigits :: "nat \<Rightarrow> jsstring \<Rightarrow> nat list" where
  "leadingDigits radix [] = []"
| "leadingDigits radix (c # cs) =
     (case digitValue radix c of None \<Rightarrow> [] | Some v \<Rightarrow> v # leadingDigits radix cs)"

definition parseInt :: "jsstring \<Rightarrow> int option" where
  "parseInt s =
     (let s1 = dropWhile isWhiteSpace s;
          sign = (case s1 of c # cs \<Rightarrow> if c = 0x2D then - 1 else 1 | [] \<Rightarrow> (1::int));
          s2 = (case s1 of c # cs \<Rightarrow> if c = 0x2D \<or> c = 0x2B then cs else s1 | [] \<Rightarrow> []);
          hex = (startsWith s2 (ascii ''0x'') \<or> startsWith s2 (ascii ''0X''));
          radix = (if hex then 16 else 10);
          s3 = (if hex then drop 2 s2 else s2);
          ds = leadingDigits radix s3
      in if ds = [] then None
         else Some (sign * int (foldl (\<lambda>acc d. acc * radix + d) 0 ds)))"

definition orElse :: "int option \<Rightarrow> int \<Rightarrow> int" where
  "orElse v d = (case v of None \<Rightarrow> d | Some n \<Rightarrow> if n = 0 then d else n)"

text \<open>\<open>parseInt(parts[i])\<close>: a missing part is \<open>undefined\<close>, which parses to \<open>NaN\<close>.\<close>

definition parsePart :: "jsstring list \<Rightarrow> nat \<Rightarrow> int option" where
  "parsePart parts i = (if i < length parts then parseInt (parts ! i) else None)"

subsection \<open>\<open>calculateYearsOfExperience\<close>\<close>

text \<open>
  The stated-duration pattern: one or more numeral characters (the Chinese numerals one
  to ten, U+4E00 U+4E8C U+4E09 U+56DB U+4E94 U+516D U+4E03 U+516B U+4E5D U+5341, or an
  ASCII digit), the character U+5E74 (year), any number of characters of the class
  written with the role words (its members are the characters of those words and the
  bar), any number of the words U+5F00 U+53D1 or U+5DE5 U+4F5C, and the word U+7ECF
  U+9A8C (experience). Each function gives the text left after its part of the pattern,
  or \<open>None\<close>; the greedy repetitions give back what they took when the rest does not
  match.
\<close>

definition isYearChar :: "nat \<Rightarrow> bool" where
  "isYearChar c \<longleftrightarrow>
     c \<in> {0x4E00, 0x4E8C, 0x4E09, 0x56DB, 0x4E94, 0x516D, 0x4E03, 0x516B, 0x4E5D, 0x5341}
     \<or> (0x30 \<le> c \<and> c \<le> 0x39)"

definition isRoleChar :: "nat \<Rightarrow> bool" where
  "isRoleChar c \<longleftrightarrow>
     c \<in> {0x524D, 0x7AEF, 0x7C, 0x540E, 0x5168, 0x6808, 0x5F00, 0x53D1, 0x5DE5, 0x7A0B,
          0x5E08, 0x6280, 0x672F}"

definition matchExperienceWord :: "jsstring \<Rightarrow> jsstring option" where
  "matchExperienceWord t = (if startsWith t [0x7ECF, 0x9A8C] then Some (drop 2 t) else None)"

fun matchWorkWords :: "jsstring \<Rightarrow> jsstring option" where
  "matchWorkWords (a # b # rest) =
     (if [a, b] = [0x5F00, 0x53D1] \<or> [a, b] = [0x5DE5, 0x4F5C] then
        (case matchWorkWords rest of
           Some r \<Rightarrow> Some r
         | None \<Rightarrow> matchExperienceWord (a # b # rest))
      else matchExperienceWord (a # b # rest))"
| "matchWorkWords t = matchExperienceWord t"

fun matchRoleChars :: "jsstring \<Rightarrow> jsstring option" where
  "matchRoleChars [] = matchWorkWords []"
| "matchRoleChars (c # cs) =
     (if isRoleChar c then
        (case matchRoleChars cs of
           Some r \<Rightarrow> Some r
         | None \<Rightarrow> matchWorkWords (c # cs))
      else matchWorkWords (c # cs))"

definition matchExperiencePattern :: "jsstring \<Rightarrow> jsstring option" where
  "matchExperiencePattern t =
     (case t of
        [] \<Rightarrow> None
      | c # cs \<Rightarrow>
          if isYearChar c then
            (case dropWhile isYearChar cs of
               [] \<Rightarrow> None
             | y # rest \<Rightarrow> if y = 0x5E74 then matchRoleChars rest else None)
          else None)"

text \<open>
  \<open>resumeText.match(experiencePattern)\<close> with the \<open>g\<close> flag: all matches from left to
  right, none overlapping another; \<open>skip\<close> counts the code units of the last match still
  to be passed.
\<close>

fun experienceMatches :: "nat \<Rightarrow> jsstring \<Rightarrow> jsstring list" where
  "experienceMatches skip [] = []"
| "experienceMatches (Suc n) (c # cs) = experienceMatches n cs"
| "experienceMatches 0 (c # cs) =
     (case matchExperiencePattern (c # cs) of
        Some rest \<Rightarrow>
          take (length (c # cs) - length rest) (c # cs)
            # experienceMatches (length (c # cs) - length rest - 1) cs
      | None \<Rightarrow> experienceMatches 0 cs)"

text \<open>
  The years a match states: its first run of numeral characters, looked up in
  \<open>chineseNumbers\<close> or else converted by \<open>Number\<close>; 0 when it is neither a single
  Chinese numeral nor a decimal number.
\<close>

definition chineseNumbers :: "jsstring \<rightharpoonup> nat" where
  "chineseNumbers =
     [ [0x4E00] \<mapsto> 1, [0x4E8C] \<mapsto> 2, [0x4E09] \<mapsto> 3, [0x56DB] \<mapsto> 4, [0x4E94] \<mapsto> 5,
       [0x516D] \<mapsto> 6, [0x4E03] \<mapsto> 7, [0x516B] \<mapsto> 8, [0x4E5D] \<mapsto> 9, [0x5341] \<mapsto> 10 ]"

definition decimalNumber :: "jsstring \<Rightarrow> nat option" where
  "decimalNumber s =
     (if s \<noteq> [] \<and> list_all (\<lambda>c. 0x30 \<le> c \<and> c \<le> 0x39) s
      then Some (foldl (\<lambda>acc c. acc * 10 + (c - 0x30)) 0 s) else None)"

definition statedYears :: "jsstring \<Rightarrow> nat" where
  "statedYears m =
     (let yearStr = takeWhile isYearChar (dropWhile (\<lambda>c. \<not> isYearChar c) m)
      in case chineseNumbers yearStr of
           Some n \<Rightarrow> n
         | None \<Rightarrow> (case decimalNumber yearStr of Some n \<Rightarrow> n | None \<Rightarrow> 0))"

definition firstStatedYears :: "jsstring \<Rightarrow> nat option" where
  "firstStatedYears resumeText =
     find (\<lambda>years. 0 < years \<and> years \<le> 20) (map statedYears (experienceMatches 0 resumeText))"

text \<open>
  The year and month numbers the \<open>map\<close> callback computes for one record. The two
  \<open>Date\<close> objects it adds are determined by them; \<open>dateKey\<close> orders the start dates as
  their time values do: \<open>new Date(y, m - 1)\<close> takes a year from 0 to 99 as 1900 + y and
  carries months outside 0..11 into the year.
\<close>

record NormalizedExperience =
  startYear :: int
  startMonth :: int
  endYear :: int
  endMonth :: int

definition isOngoing :: "(jsstring \<Rightarrow> jsstring) \<Rightarrow> jsstring \<Rightarrow> bool" where
  "isOngoing lc e \<longleftrightarrow>
     e = [0x81F3, 0x4ECA] \<or> e = [0x73B0, 0x5728] \<or> includesStr (lc e) (ascii ''present'')"

definition normalizeExperience ::
  "(jsstring \<Rightarrow> jsstring) \<Rightarrow> int \<Rightarrow> int \<Rightarrow> WorkExperience \<Rightarrow> NormalizedExperience" where
  "normalizeExperience lc currentYear currentMonth experience =
     (let startParts = splitAt 0x2E (startDate experience);
          endParts = splitAt 0x2E (endDate experience);
          dottedStart = includesStr (startDate experience) (ascii ''.'');
          dottedEnd = includesStr (endDate experience) (ascii ''.'')
      in \<lparr> startYear = (if dottedStart then orElse (parsePart startParts 0) currentYear
                         else orElse (parseInt (startDate experience)) currentYear),
            startMonth = (if dottedStart then orElse (parsePart startParts 1) 1 else 1),
            endYear = (if isOngoing lc (endDate experience) then currentYear
                       else if dottedEnd then orElse (parsePart endParts 0) currentYear
                       else orElse (parseInt (endDate experience)) currentYear),
            endMonth = (if isOngoing lc (endDate experience) then currentMonth
                        else if dottedEnd then orElse (parsePart endParts 1) 12
                        else 12) \<rparr>)"

definition dateKey :: "int \<Rightarrow> int \<Rightarrow> int" where
  "dateKey y m = (if 0 \<le> y \<and> y \<le> 99 then 1900 + y else y) * 12 + (m - 1)"

text \<open>
  \<open>new Date(y, m - 1)\<close> is a valid date exactly when its month lies from May of the
  year -271821 to September of the year 275760: the time values end on 20 April
  -271821 and on 13 September 275760, more than a day away from every first of a
  month, so the time zone does not matter. For an invalid start date the comparison
  function of \<open>sort\<close> gives \<open>NaN\<close>.
\<close>

definition validStartDate :: "NormalizedExperience \<Rightarrow> bool" where
  "validStartDate e \<longleftrightarrow>
     - 271821 * 12 + 4 \<le> dateKey (startYear e) (startMonth e) \<and>
     dateKey (startYear e) (startMonth e) \<le> 275760 * 12 + 8"

text \<open>
  The numbers of the program are doubles. When the four numbers of a record are at most
  \<open>2^48\<close> in absolute value, \<open>parseInt\<close> gave them exactly, and so are the differences,
  the product by 12 and the sum (all below \<open>2^53\<close>), and the floor of the quotient by 12.
\<close>

definition exactRange :: "NormalizedExperience \<Rightarrow> bool" where
  "exactRange e \<longleftrightarrow>
     \<bar>startYear e\<bar> \<le> 2 ^ 48 \<and> \<bar>startMonth e\<bar> \<le> 2 ^ 48 \<and>
     \<bar>endYear e\<bar> \<le> 2 ^ 48 \<and> \<bar>endMonth e\<bar> \<le> 2 ^ 48"

text \<open>
  \<open>calculateYearsOfExperience\<close>, with the resume text (the metadata entry \<open>resumeText\<close>)
  and the current year and month as parameters. The result is \<open>None\<close> in two cases, in
  which the program still returns a number that the model does not determine: a record
  outside \<open>exactRange\<close>, where the doubles round; and a list of more than one record with
  an invalid start date, where the comparison function is not consistent and the order
  of the sorted array is implementation-defined. A single record is never compared, so
  its start date may be invalid. \<open>Array.prototype.sort\<close> is stable, and so is
  \<open>sort_key\<close>.
\<close>

definition calculateYearsOfExperience ::
  "(jsstring \<Rightarrow> jsstring) \<Rightarrow> int \<Rightarrow> int \<Rightarrow> jsstring \<Rightarrow> WorkExperience list \<Rightarrow> int option" where
  "calculateYearsOfExperience lc currentYear currentMonth resumeText workExp =
     (if workExp = [] then Some 0
      else
        (case firstStatedYears resumeText of
           Some years \<Rightarrow> Some (int years)
         | None \<Rightarrow>
             let normalized = map (normalizeExperience lc currentYear currentMonth) workExp in
             if \<not> list_all exactRange normalized then None
             else if 1 < length normalized \<and> \<not> list_all validStartDate normalized then None
             else
               let sortedExperiences =
                     sort_key (\<lambda>e. dateKey (startYear e) (startMonth e)) normalized
               in if sortedExperiences = [] then Some 0
                  else
                    let earliestStart = hd sortedExperiences;
                        latestEnd = last sortedExperiences;
                        totalMonths = (endYear latestEnd - startYear earliestStart) * 12
                                        + (endMonth latestEnd - startMonth earliestStart);
                        years = max 0 (totalMonths div 12)
                    in Some (min years 15)))"

text \<open>
  The years of experience in the words of the specification, for a non-empty list
  without a stated duration: the span in whole years, floored, from the earliest start
  date to the latest end date over all records, capped at 15.
\<close>

definition specifiedYearsOfExperience :: "NormalizedExperience list \<Rightarrow> int" where
  "specifiedYearsOfExperience normalized =
     (let earliestStart = Min (set (map (\<lambda>e. startYear e * 12 + startMonth e) normalized));
          latestEnd = Max (set (map (\<lambda>e. endYear e * 12 + endMonth e) normalized))
      in min 15 (max 0 ((latestEnd - earliestStart) div 12)))"

subsection \<open>Resume texts and experience lists used below\<close>

text \<open>
  \<open>fiveYearsStated\<close> is the phrase 5 U+5E74 U+5DE5 U+4F5C U+7ECF U+9A8C (five years of
  work experience); \<open>fiveYearsFrontend\<close> states the same with the numeral U+4E94 and the
  role word front-end development. \<open>extracted s e lines\<close> is a record as
  \<open>extractWorkExperience\<close> builds it from a date range in an English resume without
  company or title lines; \<open>overlappingJobs\<close> is what it extracts from \<open>twoDateRanges\<close>,
  where each plain range is found by the first and again by the second date pattern.
\<close>

definition fiveYearsStated :: jsstring where
  "fiveYearsStated = [0x35, 0x5E74, 0x5DE5, 0x4F5C, 0x7ECF, 0x9A8C]"

definition fiveYearsFrontend :: jsstring where
  "fiveYearsFrontend = [0x4E94, 0x5E74, 0x524D, 0x7AEF, 0x5F00, 0x53D1, 0x7ECF, 0x9A8C]"

definition twoDateRanges :: jsstring where
  "twoDateRanges = ascii ''2010.1 - 2024.12'' @ [0x0A] @ ascii ''2015.1 - 2016.12''"

definition extracted :: "jsstring \<Rightarrow> jsstring \<Rightarrow> jsstring list \<Rightarrow> WorkExperience" where
  "extracted s e lines =
     \<lparr> company = ascii ''Technology Company'', position = ascii ''Software Engineer'',
       startDate = s, endDate = e, exp_description = lines, achievements = [] \<rparr>"

definition overlappingJobs :: "WorkExperience list" where
  "overlappingJobs =
     (let lines = [ascii ''2010.1 - 2024.12'', ascii ''2015.1 - 2016.12''];
          a = extracted (ascii ''2010.1'') (ascii ''2024.12'') lines;
          b = extracted (ascii ''2015.1'') (ascii ''2016.12'') lines
      in [a, b, a, b])"

definition longCareer :: "WorkExperience list" where
  "longCareer = [extracted (ascii ''1990'') (ascii ''2024'') []]"

definition currentJob :: "WorkExperience list" where
  "currentJob = [extracted (ascii ''2020.3'') (ascii ''Present'') []]"

subsection \<open>Facts about the years of experience\<close>

lemmas pattern_eval = matchExperiencePattern_def matchExperienceWord_def isYearChar_def
  isRoleChar_def statedYears_def chineseNumbers_def decimalNumber_def firstStatedYears_def

lemma fiveYearsStated_years: "firstStatedYears fiveYearsStated = Some 5"
  by (simp add: fiveYearsStated_def pattern_eval)

lemma fiveYearsFrontend_years: "firstStatedYears fiveYearsFrontend = Some 5"
  by (simp add: fiveYearsFrontend_def pattern_eval)

lemma twoDateRanges_years: "firstStatedYears twoDateRanges = None"
  by (simp add: twoDateRanges_def pattern_eval ascii_def)

lemma empty_years: "firstStatedYears [] = None"
  by (simp add: pattern_eval)

lemmas date_eval = normalizeExperience_def parsePart_def parseInt_def orElse_def isOngoing_def
  isWhiteSpace_def digitValue_def asciiLower_def ascii_def extracted_def dateKey_def exactRange_def validStartDate_def

lemma overlappingJobs_normalized:
  "map (normalizeExperience asciiLower currentYear currentMonth) overlappingJobs =
     [ \<lparr> startYear = 2010, startMonth = 1, endYear = 2024, endMonth = 12 \<rparr>,
       \<lparr> startYear = 2015, startMonth = 1, endYear = 2016, endMonth = 12 \<rparr>,
       \<lparr> startYear = 2010, startMonth = 1, endYear = 2024, endMonth = 12 \<rparr>,
       \<lparr> startYear = 2015, startMonth = 1, endYear = 2016, endMonth = 12 \<rparr> ]"
  by (simp add: overlappingJobs_def date_eval Let_def)

lemma longCareer_normalized:
  "map (normalizeExperience asciiLower 2025 6) longCareer =
     [ \<lparr> startYear = 1990, startMonth = 1, endYear = 2024, endMonth = 12 \<rparr> ]"
  by (simp add: longCareer_def date_eval Let_def)

lemma currentJob_ongoing: "list_all (\<lambda>w. isOngoing asciiLower (endDate w)) currentJob"
  by (simp add: currentJob_def date_eval)

lemma currentJob_normalized:
  "map (normalizeExperience asciiLower 2025 6) currentJob =
     [ \<lparr> startYear = 2020, startMonth = 3, endYear = 2025, endMonth = 6 \<rparr> ]"
  by (simp add: currentJob_def date_eval Let_def)

lemma sorted_hd_least:
  "sorted (map k ys) \<Longrightarrow> x \<in> set ys \<Longrightarrow> k (hd ys) \<le> k x"
  by (cases ys) auto

lemma sorted_last_greatest:
  "sorted (map k ys) \<Longrightarrow> x \<in> set ys \<Longrightarrow> k x \<le> k (last ys)"
proof (induction ys)
  case Nil
  then show ?case by simp
next
  case (Cons y ys)
  show ?case
  proof (cases "ys = []")
    case True
    with Cons.prems show ?thesis by simp
  next
    case False
    then have l: "last (y # ys) = last ys" by simp
    have s: "sorted (map k ys)" using Cons.prems(1) by simp
    show ?thesis
    proof (cases "x = y")
      case True
      have "last ys \<in> set ys" using False by simp
      then have "k y \<le> k (last ys)" using Cons.prems(1) by auto
      with True l show ?thesis by simp
    next
      case ne: False
      with Cons.prems(2) have "x \<in> set ys" by simp
      from Cons.IH [OF s this] l show ?thesis by simp
    qed
  qed
qed

lemma firstStatedYears_range:
  "firstStatedYears t = Some years \<Longrightarrow> 1 \<le> years \<and> years \<le> 20"
  unfolding firstStatedYears_def by (auto dest: find_Some_iff [THEN iffD1])

lemma span_result:
  fixes normalized :: "NormalizedExperience list"
  assumes ne: "normalized \<noteq> []"
  defines "S \<equiv> sort_key (\<lambda>e. dateKey (startYear e) (startMonth e)) normalized"
  shows "S \<noteq> []" and "hd S \<in> set normalized" and "last S \<in> set normalized"
    and "\<And>x. x \<in> set normalized \<Longrightarrow>
           dateKey (startYear (hd S)) (startMonth (hd S)) \<le> dateKey (startYear x) (startMonth x)"
    and "\<And>x. x \<in> set normalized \<Longrightarrow>
           dateKey (startYear x) (startMonth x) \<le> dateKey (startYear (last S)) (startMonth (last S))"
proof -
  have set: "set S = set normalized" by (simp add: S_def)
  show n: "S \<noteq> []" using ne set by (metis set_empty)
  show "hd S \<in> set normalized" using n set by (metis hd_in_set)
  show "last S \<in> set normalized" using n set by (metis last_in_set)
  have sorted: "sorted (map (\<lambda>e. dateKey (startYear e) (startMonth e)) S)"
    unfolding S_def by (rule sorted_sort_key)
  show "\<And>x. x \<in> set normalized \<Longrightarrow>
           dateKey (startYear (hd S)) (startMonth (hd S)) \<le> dateKey (startYear x) (startMonth x)"
    using sorted_hd_least [OF sorted] set by simp
  show "\<And>x. x \<in> set normalized \<Longrightarrow>
           dateKey (startYear x) (startMonth x) \<le> dateKey (startYear (last S)) (startMonth (last S))"
    using sorted_last_greatest [OF sorted] set by simp
qed

lemma calculateYears_span:
  assumes ne: "workExp \<noteq> []" and none: "firstStatedYears resumeText = None"
    and n: "normalized = map (normalizeExperience lc currentYear currentMonth) workExp"
    and exact: "list_all exactRange normalized"
    and valid: "length normalized \<le> 1 \<or> list_all validStartDate normalized"
  defines "S \<equiv> sort_key (\<lambda>e. dateKey (startYear e) (startMonth e)) normalized"
  shows "calculateYearsOfExperience lc currentYear currentMonth resumeText workExp
     = Some (min 15 (max 0 (((endYear (last S) * 12 + endMonth (last S))
                              - (startYear (hd S) * 12 + startMonth (hd S))) div 12)))"
proof -
  have nn: "normalized \<noteq> []" using ne n by simp
  have sn: "S \<noteq> []" unfolding S_def by (rule span_result(1) [OF nn])
  have alg: "(endYear (last S) - startYear (hd S)) * 12 + (endMonth (last S) - startMonth (hd S))
      = (endYear (last S) * 12 + endMonth (last S)) - (startYear (hd S) * 12 + startMonth (hd S))"
    by (simp add: algebra_simps)
  have v: "\<not> (1 < length normalized \<and> \<not> list_all validStartDate normalized)"
    using valid by auto
  show ?thesis
    unfolding calculateYearsOfExperience_def
    using ne none exact sn v
    by (simp add: n [symmetric] S_def [symmetric] Let_def alg min.commute)
qed

text \<open>
  What \<open>calculateYearsOfExperience\<close> gives: 0 for the empty list; for a non-empty list
  the number of the first stated duration from 1 to 20; without one, a number from 0 to
  15, which is the specified span when the end dates of the records are ordered as
  their start dates are and no start year is from 0 to 99 (a year that \<open>Date\<close> reads as
  1900 and later).
\<close>

lemma calculateYearsOfExperience_empty:
  "calculateYearsOfExperience lc currentYear currentMonth resumeText [] = Some 0"
  by (simp add: calculateYearsOfExperience_def)

lemma calculateYearsOfExperience_stated:
  assumes "workExp \<noteq> []" and "firstStatedYears resumeText = Some years"
  shows "calculateYearsOfExperience lc currentYear currentMonth resumeText workExp
           = Some (int years)"
    and "1 \<le> years" and "years \<le> 20"
  using assms firstStatedYears_range [of resumeText years]
  by (simp_all add: calculateYearsOfExperience_def)

lemma normalizeExperience_ongoing:
  "isOngoing lc (endDate w) \<Longrightarrow>
     endYear (normalizeExperience lc currentYear currentMonth w) = currentYear \<and>
     endMonth (normalizeExperience lc currentYear currentMonth w) = currentMonth"
  by (simp add: normalizeExperience_def Let_def)

lemma calculateYearsOfExperience_bounded:
  assumes ne: "workExp \<noteq> []" and none: "firstStatedYears resumeText = None"
    and n: "normalized = map (normalizeExperience lc currentYear currentMonth) workExp"
    and exact: "list_all exactRange normalized"
    and valid: "length normalized \<le> 1 \<or> list_all validStartDate normalized"
  shows "\<exists>y. calculateYearsOfExperience lc currentYear currentMonth resumeText workExp = Some y
             \<and> 0 \<le> y \<and> y \<le> 15"
  unfolding calculateYears_span [OF ne none n exact valid] by simp

lemma calculateYearsOfExperience_agrees:
  assumes ne: "workExp \<noteq> []" and none: "firstStatedYears resumeText = None"
    and n: "normalized = map (normalizeExperience lc currentYear currentMonth) workExp"
    and exact: "list_all exactRange normalized"
    and valid: "length normalized \<le> 1 \<or> list_all validStartDate normalized"
    and four: "\<forall>e\<in>set normalized. startYear e < 0 \<or> 99 < startYear e"
    and ordered: "\<forall>a\<in>set normalized. \<forall>b\<in>set normalized.
             startYear a * 12 + startMonth a \<le> startYear b * 12 + startMonth b
             \<longrightarrow> endYear a * 12 + endMonth a \<le> endYear b * 12 + endMonth b"
  shows "calculateYearsOfExperience lc currentYear currentMonth resumeText workExp
           = Some (specifiedYearsOfExperience normalized)"
proof -
  define S where "S = sort_key (\<lambda>e. dateKey (startYear e) (startMonth e)) normalized"
  have nn: "normalized \<noteq> []" using ne n by simp
  note P = span_result [OF nn, folded S_def]
  have res: "calculateYearsOfExperience lc currentYear currentMonth resumeText workExp
      = Some (min 15 (max 0 (((endYear (last S) * 12 + endMonth (last S))
                              - (startYear (hd S) * 12 + startMonth (hd S))) div 12)))"
    unfolding S_def by (rule calculateYears_span [OF ne none n exact valid])
  have key: "dateKey (startYear e) (startMonth e) = startYear e * 12 + startMonth e - 1"
    if "e \<in> set normalized" for e
    using four that by (auto simp: dateKey_def)
  have lo: "startYear (hd S) * 12 + startMonth (hd S) \<le> startYear x * 12 + startMonth x"
    if "x \<in> set normalized" for x
    using P(4) [OF that] key [OF that] key [OF P(2)] by simp
  have hi: "startYear x * 12 + startMonth x \<le> startYear (last S) * 12 + startMonth (last S)"
    if "x \<in> set normalized" for x
    using P(5) [OF that] key [OF that] key [OF P(3)] by simp
  have mn: "Min (set (map (\<lambda>e. startYear e * 12 + startMonth e) normalized))
      = startYear (hd S) * 12 + startMonth (hd S)"
    by (rule Min_eqI) (use P(2) lo in auto)
  have mx: "Max (set (map (\<lambda>e. endYear e * 12 + endMonth e) normalized))
      = endYear (last S) * 12 + endMonth (last S)"
  proof (rule Max_eqI)
    show "finite (set (map (\<lambda>e. endYear e * 12 + endMonth e) normalized))" by simp
    show "endYear (last S) * 12 + endMonth (last S)
        \<in> set (map (\<lambda>e. endYear e * 12 + endMonth e) normalized)"
      using P(3) by auto
    fix y assume "y \<in> set (map (\<lambda>e. endYear e * 12 + endMonth e) normalized)"
    then obtain x where x: "x \<in> set normalized" and y: "y = endYear x * 12 + endMonth x"
      by auto
    from ordered x P(3) hi [OF x] show "y \<le> endYear (last S) * 12 + endMonth (last S)"
      unfolding y by blast
  qed
  show ?thesis
    unfolding res specifiedYearsOfExperience_def Let_def mn mx by (simp add: min.commute)
qed

text \<open>
  A stated duration with a non-empty list gives its number; a single record from 1990
  to 2024 gives 15, the cap; a record started in March 2020 and ongoing in June 2025
  gives 5.
\<close>

lemma calculateYearsOfExperience_examples:
  "calculateYearsOfExperience asciiLower 2025 6 fiveYearsStated longCareer = Some 5"
  "calculateYearsOfExperience asciiLower 2025 6 [] longCareer = Some 15"
  "calculateYearsOfExperience asciiLower 2025 6 [] currentJob = Some 5"
  unfolding calculateYearsOfExperience_def longCareer_normalized currentJob_normalized
    fiveYearsStated_years empty_years
  by (simp_all add: longCareer_def currentJob_def exactRange_def dateKey_def)

subsection \<open>The claim about the years of experience\<close>

text \<open>
  Claim C1 against the code, on the resume with the date ranges 2010.1 - 2024.12 and
  2015.1 - 2016.12 and no stated duration, whatever the current date: step 0 extracts
  four records, each range twice. Sorted by start date, the last record is the job from
  2015 to 2016, and \<open>calculateYearsOfExperience\<close> takes its end date as the latest
  end: the result is 6. The span from the earliest start to the latest end over all
  records, from January 2010 to December 2024, is 14 whole years.
\<close>

theorem calculateYearsOfExperience_overlapping:
  "firstStatedYears twoDateRanges = None \<and>
   map (normalizeExperience asciiLower currentYear currentMonth) overlappingJobs =
     [ \<lparr> startYear = 2010, startMonth = 1, endYear = 2024, endMonth = 12 \<rparr>,
       \<lparr> startYear = 2015, startMonth = 1, endYear = 2016, endMonth = 12 \<rparr>,
       \<lparr> startYear = 2010, startMonth = 1, endYear = 2024, endMonth = 12 \<rparr>,
       \<lparr> startYear = 2015, startMonth = 1, endYear = 2016, endMonth = 12 \<rparr> ] \<and>
   calculateYearsOfExperience asciiLower currentYear currentMonth twoDateRanges overlappingJobs
     = Some 6 \<and>
   specifiedYearsOfExperience
       (map (normalizeExperience asciiLower currentYear currentMonth) overlappingJobs) = 14"
proof -
  have code: "calculateYearsOfExperience asciiLower currentYear currentMonth twoDateRanges
      overlappingJobs = Some 6"
    unfolding calculateYearsOfExperience_def twoDateRanges_years overlappingJobs_normalized
    by (simp add: overlappingJobs_def exactRange_def validStartDate_def dateKey_def Let_def)
  have spec: "specifiedYearsOfExperience
       (map (normalizeExperience asciiLower currentYear currentMonth) overlappingJobs) = 14"
    unfolding overlappingJobs_normalized by (simp add: specifiedYearsOfExperience_def)
  show ?thesis
    by (rule conjI [OF twoDateRanges_years conjI [OF overlappingJobs_normalized conjI [OF code spec]]])
qed

subsection \<open>\<open>determineIndustry\<close>\<close>

text \<open>
  The industries in the order of the object literal, which is the order in which
  \<open>Object.entries\<close> lists them; the first one with a keyword contained in the text is
  returned.
\<close>

definition industryKeywords :: "(jsstring \<times> jsstring list) list" where
  "industryKeywords =
     [ (ascii ''Technology'',
          [ ascii ''tech'', ascii ''software'', ascii ''ai'', ascii ''ml'', ascii ''data'',
            ascii ''cloud'', ascii ''startup'', ascii ''web3'', ascii ''blockchain'',
            [0x79D1, 0x6280], [0x8F6F, 0x4EF6], [0x4EBA, 0x5DE5, 0x667A, 0x80FD],
            [0x6280, 0x672F], [0x4E92, 0x8054, 0x7F51], [0x524D, 0x7AEF], [0x540E, 0x7AEF],
            [0x5F00, 0x53D1], [0x7A0B, 0x5E8F] ]),
       (ascii ''Finance'',
          [ ascii ''finance'', ascii ''bank'', ascii ''fintech'', ascii ''trading'',
            ascii ''investment'', [0x91D1, 0x878D], [0x94F6, 0x884C], [0x6295, 0x8D44],
            [0x652F, 0x4ED8], [0x533A, 0x5757, 0x94FE] ]),
       (ascii ''Gaming'',
          [ ascii ''game'', ascii ''gaming'', ascii ''entertainment'', ascii ''nft'',
            [0x6E38, 0x620F], [0x5A31, 0x4E50], [0x7535, 0x7ADE] ]),
       (ascii ''E-commerce'',
          [ ascii ''ecommerce'', ascii ''retail'', ascii ''shopping'', ascii ''marketplace'',
            [0x7535, 0x5546], [0x96F6, 0x552E], [0x8D2D, 0x7269], [0x5546, 0x57CE] ]),
       (ascii ''Education'',
          [ ascii ''education'', ascii ''university'', ascii ''school'', ascii ''academic'',
            [0x6559, 0x80B2], [0x5927, 0x5B66], [0x5B66, 0x6821], [0x57F9, 0x8BAD] ]),
       (ascii ''Healthcare'',
          [ ascii ''health'', ascii ''medical'', ascii ''pharma'', ascii ''biotech'',
            [0x533B, 0x7597], [0x5065, 0x5EB7], [0x751F, 0x7269], [0x533B, 0x836F] ]),
       (ascii ''Media'',
          [ ascii ''media'', ascii ''content'', ascii ''publishing'', ascii ''social'',
            [0x5A92, 0x4F53], [0x5185, 0x5BB9], [0x51FA, 0x7248], [0x793E, 0x4EA4] ]) ]"

definition determineIndustry ::
  "(jsstring \<Rightarrow> jsstring) \<Rightarrow> WorkExperience list \<Rightarrow> Skill list \<Rightarrow> jsstring" where
  "determineIndustry lc workExp skillList =
     (let allText = lc (joinWith (ascii '' '')
                          (concat (map (\<lambda>e. [company e, position e] @ exp_description e) workExp)
                             @ concat (map items skillList)))
      in case find (\<lambda>entry. list_ex (\<lambda>keyword. includesStr allText keyword) (snd entry))
                industryKeywords of
           Some entry \<Rightarrow> fst entry
         | None \<Rightarrow> ascii ''Technology'')"

subsection \<open>\<open>analyzeCareerProgression\<close>\<close>

definition progressionKeywords :: "jsstring list list" where
  "progressionKeywords =
     [ [ ascii ''intern'', ascii ''junior'', ascii ''senior'', ascii ''lead'',
         ascii ''principal'' ],
       [ ascii ''developer'', ascii ''senior developer'', ascii ''tech lead'',
         ascii ''architect'' ],
       [ ascii ''assistant'', ascii ''associate'', ascii ''manager'', ascii ''director'' ],
       [ [0x5B9E, 0x4E60], [0x521D, 0x7EA7], [0x4E2D, 0x7EA7], [0x9AD8, 0x7EA7],
         [0x8D44, 0x6DF1], [0x4E13, 0x5BB6], [0x4E3B, 0x7BA1], [0x7ECF, 0x7406] ] ]"

text \<open>
  One round of the inner loop: the state is \<open>(lastIndex, hasProgression)\<close>, and
  \<open>currentIndex\<close> is \<open>-1\<close> when no keyword of the ladder occurs in the position.
\<close>

definition progressionStep :: "jsstring list \<Rightarrow> int \<times> bool \<Rightarrow> jsstring \<Rightarrow> int \<times> bool" where
  "progressionStep keywords state pos =
     (let lastIndex = fst state;
          hasProgression = snd state;
          currentIndex = (case findIndex (\<lambda>keyword. includesStr pos keyword) keywords of
                            None \<Rightarrow> - 1
                          | Some i \<Rightarrow> int i)
      in (if currentIndex \<noteq> - 1 then max lastIndex currentIndex else lastIndex,
          hasProgression \<or> (lastIndex < currentIndex \<and> 0 < currentIndex)))"

definition analyzeCareerProgression :: "(jsstring \<Rightarrow> jsstring) \<Rightarrow> WorkExperience list \<Rightarrow> bool" where
  "analyzeCareerProgression lc workExp \<longleftrightarrow>
     (if length workExp < 2 then False
      else list_ex (\<lambda>keywords.
                      snd (foldl (progressionStep keywords) (- 1, False)
                             (map (\<lambda>e. lc (position e)) workExp)))
             progressionKeywords)"

subsection \<open>\<open>assessExperience\<close>\<close>

datatype CareerProgression = Ascending | Lateral | Stable

record ExperienceAssessment =
  relevantIndustries :: "jsstring list"
  careerProgression :: CareerProgression
  keyAchievements :: "jsstring list"

text \<open>\<open>[...new Set(xs)]\<close>: the values of \<open>xs\<close> in the order of their first occurrence.\<close>

definition uniqueValues :: "'a list \<Rightarrow> 'a list" where
  "uniqueValues xs = foldl (\<lambda>seen x. if x \<in> set seen then seen else seen @ [x]) [] xs"

text \<open>
  The comparison function of the sort is \<open>parseInt(a.startDate) - parseInt(b.startDate)\<close>.
  It orders the records by \<open>startKey\<close> when every start date parses to a number of at
  most \<open>2^53\<close> in absolute value, which \<open>parseInt\<close> gives exactly; \<open>Array.prototype.sort\<close>
  is stable, and so is \<open>sort_key\<close>. For other start dates the difference can be \<open>NaN\<close>
  and the order is implementation-defined: the model gives \<open>None\<close>.
\<close>

definition sortableStart :: "WorkExperience \<Rightarrow> bool" where
  "sortableStart w \<longleftrightarrow>
     (case parseInt (startDate w) of None \<Rightarrow> False | Some n \<Rightarrow> \<bar>n\<bar> \<le> 2 ^ 53)"

definition startKey :: "WorkExperience \<Rightarrow> int" where
  "startKey w = (case parseInt (startDate w) of None \<Rightarrow> 0 | Some n \<Rightarrow> n)"

text \<open>
  \<open>assessExperience\<close>, the executor of step 3. Its \<open>parsedResume\<close> is the object that step
  0 returned and the orchestrator holds as the result of that step, and \<open>workExp\<close> is the
  array in its field \<open>workExperience\<close>, not a copy. \<open>workExp.sort\<close> sorts that array in
  place and returns it. The model returns the assessment together with the state of
  the step 0 object after the call: the field \<open>workExperience\<close> holds the sorted array
  when the list has more than one record. The industries are computed before the sort,
  the achievements after it.
\<close>

definition assessExperience ::
  "(jsstring \<Rightarrow> jsstring) \<Rightarrow> ParsedResume \<Rightarrow> (ExperienceAssessment \<times> ParsedResume) option" where
  "assessExperience lc parsedResume =
     (let workExp = workExperience parsedResume;
          industries = map (\<lambda>e. determineIndustry lc [e] (skills parsedResume)) workExp;
          uniqueIndustries = uniqueValues industries
      in if 1 < length workExp \<and> \<not> list_all sortableStart workExp then None
         else
           let sortedExp = sort_key startKey workExp;
               workExpAfter = (if 1 < length workExp then sortedExp else workExp);
               progression = (if 1 < length workExp \<and> analyzeCareerProgression lc sortedExp
                              then Ascending else Stable);
               achieved = take 5 (filter (\<lambda>achievement. 10 < length achievement)
                             (concat (map (\<lambda>e. exp_description e @ achievements e) workExpAfter)))
           in Some (\<lparr> relevantIndustries = uniqueIndustries,
                      careerProgression = progression,
                      keyAchievements = achieved \<rparr>,
                    parsedResume\<lparr> workExperience := workExpAfter \<rparr>))"

subsection \<open>A resume that lists the most recent job first\<close>

text \<open>
  \<open>recentFirstText\<close> is a resume of two lines, \<open>2020.1 - 2021.12\<close> and \<open>2018.3 - 2019.12\<close>.
  \<open>extractWorkExperience\<close> finds each range with its first and again with its second
  date pattern, so step 0 returns four records, in the order of the text, twice.
\<close>

definition recentFirstText :: jsstring where
  "recentFirstText = ascii ''2020.1 - 2021.12'' @ [0x0A] @ ascii ''2018.3 - 2019.12''"

definition recentJob :: WorkExperience where
  "recentJob = extracted (ascii ''2020.1'') (ascii ''2021.12'')
                 [ascii ''2020.1 - 2021.12'', ascii ''2018.3 - 2019.12'']"

definition earlierJob :: WorkExperience where
  "earlierJob = extracted (ascii ''2018.3'') (ascii ''2019.12'')
                  [ascii ''2020.1 - 2021.12'', ascii ''2018.3 - 2019.12'']"

definition recentFirst :: ParsedResume where
  "recentFirst = emptyResume\<lparr> workExperience := [recentJob, earlierJob, recentJob, earlierJob] \<rparr>"

subsection \<open>Facts about \<open>assessExperience\<close>\<close>

lemma recentJob_key: "parseInt (startDate recentJob) = Some 2020"
  by (simp add: recentJob_def extracted_def parseInt_def ascii_def isWhiteSpace_def digitValue_def Let_def)

lemma earlierJob_key: "parseInt (startDate earlierJob) = Some 2018"
  by (simp add: earlierJob_def extracted_def parseInt_def ascii_def isWhiteSpace_def digitValue_def Let_def)

lemma startKeys: "startKey recentJob = 2020" "startKey earlierJob = 2018"
  by (simp_all add: startKey_def recentJob_key earlierJob_key)

lemma startDates:
  "startDate recentJob = ascii ''2020.1''" "startDate earlierJob = ascii ''2018.3''"
  by (simp_all add: recentJob_def earlierJob_def extracted_def)

lemma jobs_differ: "recentJob \<noteq> earlierJob"
  by (simp add: recentJob_def earlierJob_def extracted_def ascii_def)

lemma recentFirst_after:
  "map_option snd (assessExperience asciiLower recentFirst)
     = Some (recentFirst\<lparr> workExperience := [earlierJob, earlierJob, recentJob, recentJob] \<rparr>)"
  by (simp add: assessExperience_def recentFirst_def Let_def sortableStart_def
        recentJob_key earlierJob_key startKeys)

lemma assessExperience_frame:
  assumes r: "assessExperience lc parsedResume = Some (assessment, after)"
  shows "after = parsedResume\<lparr> workExperience := workExperience after \<rparr>"
    and "workExperience after =
           (if 1 < length (workExperience parsedResume)
            then sort_key startKey (workExperience parsedResume)
            else workExperience parsedResume)"
    and "length (workExperience parsedResume) \<le> 1
           \<or> sorted (map startKey (workExperience parsedResume)) \<Longrightarrow> after = parsedResume"
proof -
  from r have a: "after = parsedResume\<lparr> workExperience :=
      (if 1 < length (workExperience parsedResume)
       then sort_key startKey (workExperience parsedResume)
       else workExperience parsedResume) \<rparr>"
    by (simp add: assessExperience_def Let_def split: if_splits)
  show "after = parsedResume\<lparr> workExperience := workExperience after \<rparr>"
    by (subst (1 2) a) simp
  show "workExperience after =
           (if 1 < length (workExperience parsedResume)
            then sort_key startKey (workExperience parsedResume)
            else workExperience parsedResume)"
    by (subst a) simp
  show "after = parsedResume"
    if "length (workExperience parsedResume) \<le> 1
           \<or> sorted (map startKey (workExperience parsedResume))"
    using that by (subst a) (auto simp: sort_key_id_if_sorted)
qed

subsection \<open>The claim about the parsed resume\<close>

text \<open>
  Claim C8 against the code, on the resume that lists the job of 2020 before the job of
  2018: step 0 returns the records in the order of the text, and after
  \<open>assessExperience\<close>, the executor of step 3, the same object holds them sorted by
  start year. The record of step 0 has changed.
\<close>

theorem assessExperience_sorts_step0_record:
  "workExperience recentFirst = [recentJob, earlierJob, recentJob, earlierJob] \<and>
   map_option (workExperience \<circ> snd) (assessExperience asciiLower recentFirst)
     = Some [earlierJob, earlierJob, recentJob, recentJob] \<and>
   map_option snd (assessExperience asciiLower recentFirst) \<noteq> Some recentFirst \<and>
   map startDate [earlierJob, earlierJob, recentJob, recentJob]
     = [ascii ''2018.3'', ascii ''2018.3'', ascii ''2020.1'', ascii ''2020.1'']"
proof -
  have a: "workExperience recentFirst = [recentJob, earlierJob, recentJob, earlierJob]"
    by (simp add: recentFirst_def)
  have b: "map_option (workExperience \<circ> snd) (assessExperience asciiLower recentFirst)
     = Some [earlierJob, earlierJob, recentJob, recentJob]"
    using recentFirst_after by (auto simp: map_option_case split: option.splits)
  have c: "map_option snd (assessExperience asciiLower recentFirst) \<noteq> Some recentFirst"
  proof
    assume "map_option snd (assessExperience asciiLower recentFirst) = Some recentFirst"
    with recentFirst_after
    have "recentFirst\<lparr> workExperience := [earlierJob, earlierJob, recentJob, recentJob] \<rparr>
            = recentFirst" by simp
    then have "workExperience (recentFirst\<lparr> workExperience := [earlierJob, earlierJob, recentJob, recentJob] \<rparr>)
            = workExperience recentFirst" by simp
    with a jobs_differ show False by simp
  qed
  have d: "map startDate [earlierJob, earlierJob, recentJob, recentJob]
     = [ascii ''2018.3'', ascii ''2018.3'', ascii ''2020.1'', ascii ''2020.1'']"
    by (simp add: startDates)
  show ?thesis by (rule conjI [OF a conjI [OF b conjI [OF c d]]])
qed

end
